theory Spec2Isabelle
  imports Complex_Main "HOL-Library.Multiset" "HOL-Library.Log_Nat"
begin

section \<open>Errors and sequencing\<close>

text \<open>
  Every \<open>raise\<close>, failed \<open>assert\<close> and library exception of
  \<open>watermark_processor.py\<close> is a value \<open>Inl e\<close>. The three assertions the
  model reaches are told apart by their message.
\<close>

datatype assertion =
  Prefix_required          \<comment> \<open>\<open>_seed_rng\<close>: at least a 1 token prefix\<close>
  | Raw_or_tokenized       \<comment> \<open>\<open>detect\<close>: Must pass either the raw or tokenized string\<close>
  | Need_threshold         \<comment> \<open>\<open>detect\<close>: Need a threshold\<close>

datatype error =
  AssertionError assertion
  | NotImplementedError
  | RuntimeError
  | IndexError
  | ValueError
  | ZeroDivisionError
  | TypeError
  | AttributeError
  | UnboundLocalError

definition and_then :: "error + 'a \<Rightarrow> ('a \<Rightarrow> error + 'b) \<Rightarrow> error + 'b" where
  "and_then m f = (case m of Inl e \<Rightarrow> Inl e | Inr x \<Rightarrow> f x)"

section \<open>Python and tensor primitives\<close>

text \<open>
  A Python float is an IEEE double: here the real number it stands for. Every float
  operation gives the exact result rounded to the nearest double, ties to the even
  significand: \<open>round_double\<close>, with 53 significant bits and the smallest exponent
  \<open>-1022\<close>. \<open>float_exponent x\<close> is \<open>floor (log 2 x)\<close> for a positive \<open>x\<close>
  (\<open>float_exponent_log\<close>). Results beyond the largest double, which Python turns into
  \<open>inf\<close>, are not modelled.
\<close>

definition float_exponent :: "real \<Rightarrow> int" where
  "float_exponent x =
     (if 1 \<le> x then bitlen \<lfloor>x\<rfloor> - 1 else - bitlen (\<lceil>1 / x\<rceil> - 1))"

definition round_half_even :: "real \<Rightarrow> int" where
  "round_half_even m =
     (let f = \<lfloor>m\<rfloor>; r = m - of_int f
      in if r < 1 / 2 then f else if 1 / 2 < r then f + 1 else if even f then f else f + 1)"

definition round_double :: "real \<Rightarrow> real" where
  "round_double x =
     (if x = 0 then 0
      else let e = max (float_exponent \<bar>x\<bar>) (- 1022); ulp = 2 powi (e - 52)
           in of_int (round_half_even (x / ulp)) * ulp)"

definition float_of_nat :: "nat \<Rightarrow> real" where
  \<comment> \<open>the conversion of an \<open>int\<close> operand of a float operation\<close>
  "float_of_nat n = round_double (real n)"

definition fmul :: "real \<Rightarrow> real \<Rightarrow> real" where
  "fmul a b = round_double (a * b)"

definition fsub :: "real \<Rightarrow> real \<Rightarrow> real" where
  "fsub a b = round_double (a - b)"

definition fdiv :: "real \<Rightarrow> real \<Rightarrow> real" where
  "fdiv a b = round_double (a / b)"

definition fsqrt :: "real \<Rightarrow> real" where
  "fsqrt a = round_double (sqrt a)"

text \<open>\<open>int(x)\<close> of a float truncates towards zero.\<close>

definition py_int :: "real \<Rightarrow> int" where
  "py_int x = (if x < 0 then \<lceil>x\<rceil> else \<lfloor>x\<rfloor>)"

text \<open>A slice bound \<open>k\<close> on a sequence of length \<open>n\<close>: negative bounds count from the end, all are clipped.\<close>

definition norm_index :: "nat \<Rightarrow> int \<Rightarrow> nat" where
  "norm_index n k = (if k < 0 then nat (int n + k) else min n (nat k))"

definition slice_to :: "'a list \<Rightarrow> int \<Rightarrow> 'a list" where
  \<comment> \<open>\<open>xs[:k]\<close>\<close>
  "slice_to xs k = take (norm_index (length xs) k) xs"

definition slice_from :: "'a list \<Rightarrow> int \<Rightarrow> 'a list" where
  \<comment> \<open>\<open>xs[k:]\<close>\<close>
  "slice_from xs k = drop (norm_index (length xs) k) xs"

definition slice :: "'a list \<Rightarrow> int \<Rightarrow> int \<Rightarrow> 'a list" where
  \<comment> \<open>\<open>xs[i:j]\<close>\<close>
  "slice xs i j =
     take (norm_index (length xs) j - norm_index (length xs) i)
          (drop (norm_index (length xs) i) xs)"

definition index_select :: "'a list \<Rightarrow> nat list \<Rightarrow> error + 'a list" where
  \<comment> \<open>\<open>xs[idx]\<close> for an index tensor \<open>idx\<close>: out of bounds raises\<close>
  "index_select xs idx =
     (if list_all (\<lambda>i. i < length xs) idx then Inr (map (nth xs) idx) else Inl IndexError)"

definition item_at :: "'a list \<Rightarrow> int \<Rightarrow> error + 'a" where
  \<comment> \<open>\<open>xs[k]\<close>: a negative index counts from the end, out of range raises\<close>
  "item_at xs k =
     (if 0 \<le> k \<and> k < int (length xs) then Inr (xs ! nat k)
      else if - int (length xs) \<le> k \<and> k < 0 then Inr (xs ! nat (int (length xs) + k))
      else Inl IndexError)"

definition contains :: "nat list \<Rightarrow> int \<Rightarrow> bool" where
  \<comment> \<open>\<open>token in ids\<close> for a tensor of vocabulary ids\<close>
  "contains ids t = list_ex (\<lambda>i. int i = t) ids"

definition int64_mul :: "int \<Rightarrow> int \<Rightarrow> int" where
  \<comment> \<open>the product of two entries of a LongTensor wraps at 64 bits\<close>
  "int64_mul a b = (a * b + 2 ^ 63) mod 2 ^ 64 - 2 ^ 63"

definition tensor_mod :: "int \<Rightarrow> nat \<Rightarrow> error + int" where
  \<comment> \<open>\<open>t % n\<close> on an integer tensor: the sign of the divisor; torch raises on \<open>n = 0\<close>\<close>
  "tensor_mod t n = (if n = 0 then Inl RuntimeError else Inr (t mod int n))"

definition is_bit :: "char \<Rightarrow> bool" where
  "is_bit c = (c = CHR ''0'' \<or> c = CHR ''1'')"

text \<open>
  \<open>int(s, 2)\<close> on a user id. The user ids of the data model are strings of the digits
  0 and 1; any other string is rejected here with \<open>ValueError\<close>, as Python does for
  the empty string and for a string with another digit or letter.
\<close>

definition int_base2 :: "string \<Rightarrow> error + int" where
  "int_base2 s =
     (if s \<noteq> [] \<and> list_all is_bit s
      then Inr (foldl (\<lambda>a c. 2 * a + (if c = CHR ''1'' then 1 else 0)) 0 s)
      else Inl ValueError)"

section \<open>The torch generator\<close>

text \<open>
  A \<open>torch.Generator\<close> is the seed it was last given and the sizes of the permutations
  drawn since. \<open>manual_seed\<close> accepts a seed between \<open>-2^63\<close> and \<open>2^64 - 1\<close>,
  reads a negative one as the unsigned 64-bit value of its bits and raises otherwise. The permutation algorithm of
  \<open>torch.randperm\<close> is a parameter \<open>perm\<close> of the model: the drawn permutation is a
  function of the generator's seed, of what was drawn since seeding, and of the size.
\<close>

record generator =
  seed :: int
  drawn :: "nat list"

type_synonym permutation_algorithm = "int \<Rightarrow> nat list \<Rightarrow> nat \<Rightarrow> nat list"

definition seed_of :: "int \<Rightarrow> int" where
  \<comment> \<open>the seed a generator holds after \<open>manual_seed(s)\<close>\<close>
  "seed_of s = (if s < 0 then 2 ^ 64 + s else s)"

definition manual_seed :: "int \<Rightarrow> generator \<Rightarrow> error + generator" where
  "manual_seed s g =
     (if s < - (2 ^ 63) \<or> 2 ^ 64 - 1 < s then Inl RuntimeError
      else Inr (g\<lparr>seed := seed_of s, drawn := []\<rparr>))"

definition new_generator :: generator where
  \<comment> \<open>\<open>torch.Generator(device)\<close>, with torch's default seed\<close>
  "new_generator = \<lparr>seed = 67280421310721, drawn = []\<rparr>"

definition randperm :: "permutation_algorithm \<Rightarrow> nat \<Rightarrow> generator \<Rightarrow> nat list \<times> generator" where
  "randperm perm n g = (perm (seed g) (drawn g) n, g\<lparr>drawn := drawn g @ [n]\<rparr>)"

definition permutes_range :: "permutation_algorithm \<Rightarrow> bool" where
  \<comment> \<open>the contract of \<open>torch.randperm\<close>: a permutation of \<open>0 .. n - 1\<close>\<close>
  "permutes_range perm = (\<forall>s h n. mset (perm s h n) = mset [0..<n])"

section \<open>WatermarkBase\<close>

record args =
  gen_mode :: string
  depth :: "int option"     \<comment> \<open>\<open>None\<close>: no depth supplied\<close>

record watermark_base =
  vocab_size :: nat         \<comment> \<open>\<open>len(vocab)\<close>\<close>
  gamma :: real
  decrease_delta :: bool
  delta :: real
  wm_mode :: string
  seeding_scheme :: string
  hash_key :: int
  userid :: string
  args :: args

definition seed_rng :: "'a watermark_base_scheme \<Rightarrow> generator \<Rightarrow> int list \<Rightarrow> error + generator" where
  "seed_rng self g input_ids =
     (if seeding_scheme self = ''simple_1'' then
        (if length input_ids \<ge> 1
         then manual_seed (hash_key self * last input_ids) g
         else Inl (AssertionError Prefix_required))
      else Inl NotImplementedError)"

definition seed_depth_rng :: "'a watermark_base_scheme \<Rightarrow> generator \<Rightarrow> error + generator" where
  "seed_depth_rng self g =
     and_then (int_base2 (userid self)) (\<lambda>u. manual_seed (hash_key self * u) g)"

definition greenlist_size_of :: "'a watermark_base_scheme \<Rightarrow> int" where
  \<comment> \<open>line 95: \<open>int(self.vocab_size * self.gamma)\<close>, a float product\<close>
  "greenlist_size_of self = py_int (fmul (float_of_nat (vocab_size self)) (gamma self))"

definition depth_chunks :: "'a list \<Rightarrow> int \<Rightarrow> int \<Rightarrow> 'a list list" where
  \<comment> \<open>the masks appended by the loop over \<open>range(discrete_depth)\<close>\<close>
  "depth_chunks ids len d =
     map (\<lambda>i. if int i = d - 1 then slice_from ids (int i * len)
               else slice ids (int i * len) ((int i + 1) * len)) [0..<nat d]"

definition depth_red_ids_of :: "nat list \<Rightarrow> nat list \<Rightarrow> nat list \<Rightarrow> error + nat list" where
  \<comment> \<open>lines 106 to 111\<close>
  "depth_red_ids_of greenlist_ids redlist_ids depth_permutation =
     (if length redlist_ids \<noteq> length greenlist_ids
      then and_then (index_select (butlast redlist_ids) depth_permutation) (\<lambda>permuted.
           and_then (item_at redlist_ids (- 1)) (\<lambda>tail. Inr (permuted @ [tail])))
      else index_select redlist_ids depth_permutation)"

type_synonym greenlist_result = "nat list \<times> nat list \<times> nat list list \<times> nat list list"

definition get_greenlist_ids ::
  "permutation_algorithm \<Rightarrow> 'a watermark_base_scheme \<Rightarrow> generator \<Rightarrow> int list
   \<Rightarrow> error + (greenlist_result \<times> generator)" where
  "get_greenlist_ids perm self g input_ids =
     and_then (seed_rng self g input_ids) (\<lambda>rng1.
       let greenlist_size = greenlist_size_of self;
           (vocab_permutation, rng2) = randperm perm (vocab_size self) rng1;
           greenlist_ids = slice_to vocab_permutation greenlist_size;
           redlist_ids = slice_from vocab_permutation greenlist_size
       in
       and_then (seed_depth_rng self rng2) (\<lambda>rng3.
         let (depth_permutation, rng4) = randperm perm (length greenlist_ids) rng3 in
         and_then (index_select greenlist_ids depth_permutation) (\<lambda>depth_green_ids.
         and_then (depth_red_ids_of greenlist_ids redlist_ids depth_permutation) (\<lambda>depth_red_ids.
           if gen_mode (args self) = ''depth_d'' then
             (case depth (args self) of
                None \<Rightarrow> Inl TypeError
              | Some discrete_depth \<Rightarrow>
                  if discrete_depth = 0 then Inl ZeroDivisionError
                  else
                    let g_discrete_length = greenlist_size div discrete_depth;
                        r_discrete_length = greenlist_size div discrete_depth
                    in Inr ((greenlist_ids, redlist_ids,
                             depth_chunks depth_green_ids g_discrete_length discrete_depth,
                             depth_chunks depth_red_ids r_discrete_length discrete_depth), rng4))
           else Inr ((greenlist_ids, redlist_ids, [], []), rng4)))))"

section \<open>WatermarkLogitsProcessor_with_preferance\<close>

text \<open>
  The processor's mutable attributes: the lazily created generator and the step
  counter. Scores are one row of reals per batch member.
\<close>

record processor_state =
  rng :: "generator option"
  idx_t :: nat

definition add_at :: "real list \<Rightarrow> nat list \<Rightarrow> real \<Rightarrow> error + real list" where
  \<comment> \<open>\<open>row[ids] = row[ids] + v\<close>\<close>
  "add_at row ids v =
     (if list_all (\<lambda>i. i < length row) ids
      then Inr (map (\<lambda>k. if k \<in> set ids then row ! k + v else row ! k) [0..<length row])
      else Inl IndexError)"

fun bias_rows :: "real list list \<Rightarrow> nat list \<Rightarrow> real \<Rightarrow> nat list \<Rightarrow> error + real list list" where
  \<comment> \<open>the loop over \<open>j\<close> of \<open>_bias_depth_d_logits\<close>\<close>
  "bias_rows scores ids v [] = Inr scores"
| "bias_rows scores ids v (j # js) =
     (if j < length scores
      then and_then (add_at (scores ! j) ids v) (\<lambda>row. bias_rows (scores[j := row]) ids v js)
      else Inl IndexError)"

fun bias_depth_d_loop ::
  "real list list \<Rightarrow> nat \<Rightarrow> nat list list \<Rightarrow> nat \<Rightarrow> real \<Rightarrow> error + real list list" where
  \<comment> \<open>the loop over \<open>i\<close>: \<open>delta\<close> is overwritten in every round\<close>
  "bias_depth_d_loop scores rows [] i dlt = Inr scores"
| "bias_depth_d_loop scores rows (m # ms) i dlt =
     (let dlt' = dlt * 0.5 ^ i in
      and_then (bias_rows scores m dlt' [0..<rows])
        (\<lambda>scores'. bias_depth_d_loop scores' rows ms (Suc i) dlt'))"

definition bias_depth_d_logits ::
  "real list list \<Rightarrow> nat list list \<Rightarrow> nat list list \<Rightarrow> real \<Rightarrow> error + real list list" where
  "bias_depth_d_logits scores greenlist_token_ids d_masks dlt =
     bias_depth_d_loop scores (length greenlist_token_ids) d_masks 0 dlt"

definition set_at :: "bool list \<Rightarrow> nat list \<Rightarrow> error + bool list" where
  \<comment> \<open>\<open>row[ids] = 1\<close>\<close>
  "set_at row ids =
     (if list_all (\<lambda>i. i < length row) ids
      then Inr (map (\<lambda>k. k \<in> set ids \<or> row ! k) [0..<length row])
      else Inl IndexError)"

fun mask_loop :: "bool list list \<Rightarrow> nat list list \<Rightarrow> nat \<Rightarrow> error + bool list list" where
  "mask_loop msk [] b_idx = Inr msk"
| "mask_loop msk (ids # rest) b_idx =
     (if b_idx < length msk
      then and_then (set_at (msk ! b_idx) ids)
             (\<lambda>row. mask_loop (msk[b_idx := row]) rest (Suc b_idx))
      else Inl IndexError)"

definition calc_greenlist_mask :: "real list list \<Rightarrow> nat list list \<Rightarrow> error + bool list list" where
  "calc_greenlist_mask scores greenlist_token_ids =
     mask_loop (map (map (\<lambda>_. False)) scores) greenlist_token_ids 0"

definition bias_greenlist_logits ::
  "nat \<Rightarrow> real list list \<Rightarrow> bool list list \<Rightarrow> real \<Rightarrow> bool \<Rightarrow> real list list" where
  \<comment> \<open>the first argument is \<open>self.idx_t\<close>\<close>
  "bias_greenlist_logits t scores greenlist_mask greenlist_bias decrease =
     (let bias = (if decrease then 4.84 * exp 1 powr (- 1 * 0.001 * real t) else greenlist_bias)
      in map2 (map2 (\<lambda>x m. if m then x + bias else x)) scores greenlist_mask)"

fun batch_loop ::
  "permutation_algorithm \<Rightarrow> 'a watermark_base_scheme \<Rightarrow> char \<Rightarrow> int list list \<Rightarrow> generator
   \<Rightarrow> nat list list option \<Rightarrow> error + (nat list list \<times> nat list list option \<times> generator)" where
  \<comment> \<open>the loop over \<open>b_idx\<close>; \<open>d_masks\<close> keeps the value of the last round\<close>
  "batch_loop perm self preferance [] g d_masks = Inr ([], d_masks, g)"
| "batch_loop perm self preferance (row # rows) g d_masks =
     and_then (get_greenlist_ids perm self g row) (\<lambda>((green, red, green_d, red_d), g').
       let greenlist_ids = (if preferance = CHR ''1'' then green else red);
           d_masks' = (if preferance = CHR ''1'' then green_d else red_d)
       in and_then (batch_loop perm self preferance rows g' (Some d_masks'))
            (\<lambda>(batched, final_masks, g''). Inr (greenlist_ids # batched, final_masks, g'')))"

definition preferance_at_call :: "'a watermark_base_scheme \<Rightarrow> int list list \<Rightarrow> error + char" where
  \<comment> \<open>lines 205 to 211: the bit is read off the last row of the batch\<close>
  "preferance_at_call self input_ids =
     (let n = length (userid self) in
      if wm_mode self = ''previous1''
      then and_then (item_at input_ids (- 1)) (\<lambda>row.
           and_then (item_at row (- 1)) (\<lambda>t1.
           and_then (tensor_mod t1 n) (item_at (userid self))))
      else and_then (item_at input_ids (- 1)) (\<lambda>row.
           and_then (item_at row (- 1)) (\<lambda>t1.
           and_then (item_at row (- 2)) (\<lambda>t2.
           and_then (tensor_mod (int64_mul t1 t2) n) (item_at (userid self))))))"

text \<open>
  \<open>__call__\<close>. In mode beam_delta the method \<open>_calculate_beam_delta\<close>, declared with
  the one argument \<open>scores\<close>, is called with two and raises \<open>TypeError\<close>; in mode
  dynamic_delta \<open>_beam_search_predict\<close> reads \<open>self.window_length\<close>, which nothing
  sets, and raises \<open>AttributeError\<close>. In mode depth_d the masks passed on are those
  the loop over the batch left in \<open>d_masks\<close>, the ones of the last row.
\<close>

definition call ::
  "permutation_algorithm \<Rightarrow> 'a watermark_base_scheme \<Rightarrow> processor_state \<Rightarrow> int list list
   \<Rightarrow> real list list \<Rightarrow> error + (real list list \<times> processor_state)" where
  "call perm self st input_ids scores =
     (and_then (preferance_at_call self input_ids) (\<lambda>preferance.
      let t = idx_t st + 1;
          g = (case rng st of None \<Rightarrow> new_generator | Some g0 \<Rightarrow> g0)
      in
      and_then (batch_loop perm self preferance input_ids g None)
        (\<lambda>(batched_greenlist_ids, d_masks, g').
      and_then
        (if gen_mode (args self) = ''depth_d'' then
           (case d_masks of
              None \<Rightarrow> Inl UnboundLocalError
            | Some masks \<Rightarrow> bias_depth_d_logits scores batched_greenlist_ids masks (delta self))
         else if gen_mode (args self) = ''beam_delta'' then
           and_then (calc_greenlist_mask scores batched_greenlist_ids) (\<lambda>_. Inl TypeError)
         else if gen_mode (args self) = ''dynamic_delta'' then Inl AttributeError
         else
           and_then (calc_greenlist_mask scores batched_greenlist_ids) (\<lambda>green_tokens_mask.
             Inr (bias_greenlist_logits t scores green_tokens_mask (delta self)
                    (decrease_delta self))))
        (\<lambda>scores'. Inr (scores', \<lparr>rng = Some g', idx_t = t\<rparr>)))))"

section \<open>WatermarkDetector_with_preferance\<close>

text \<open>
  The detector adds to the base the tokenizer (its \<open>bos_token_id\<close> and the ids it
  gives a text), the threshold, the prefix length fixed by \<open>__init__\<close> and the
  normalizers. The tokenizer and the normalizers are callables from outside this file:
  each is a function of the value of \<open>text\<close> it is called with, \<open>None\<close> included,
  that returns or raises. The model follows the standard scoring method,
  \<open>ignore_repeated_bigrams = False\<close>, the default.
  The survival function \<open>scipy.stats.norm.sf\<close> and torch's cross-entropy diagnostic
  on the depth histogram are parameters \<open>sf\<close> and \<open>loss\<close> of the model.
\<close>

record detector = watermark_base +
  bos_token_id :: "int option"
  tokenize :: "string option \<Rightarrow> error + int list"
  z_threshold :: "real option"
  min_prefix_len :: nat
  normalizers :: "(string option \<Rightarrow> error + string option) list"

definition default_z_threshold :: real where
  \<comment> \<open>the default of \<open>__init__\<close>\<close>
  "default_z_threshold = 4.0"

definition init_min_prefix_len :: "string \<Rightarrow> string \<Rightarrow> error + nat" where
  \<comment> \<open>lines 283 to 288 of \<open>__init__\<close>\<close>
  "init_min_prefix_len scheme mode =
     (if scheme = ''simple_1'' \<and> mode = ''previous1'' then Inr 1
      else if mode = ''combination'' then Inr 2
      else Inl NotImplementedError)"

definition constructed :: "'a detector_scheme \<Rightarrow> bool" where
  \<comment> \<open>the detector is one that \<open>__init__\<close> returns\<close>
  "constructed det =
     (init_min_prefix_len (seeding_scheme det) (wm_mode det) = Inr (min_prefix_len det))"

definition compute_z_score :: "'a watermark_base_scheme \<Rightarrow> nat \<Rightarrow> nat \<Rightarrow> error + real" where
  \<comment> \<open>lines 301 to 304, every operation rounded as Python does\<close>
  "compute_z_score self observed_count T =
     (let expected_count = gamma self;
          numer = fsub (float_of_nat observed_count) (fmul expected_count (float_of_nat T));
          radicand = fmul (fmul (float_of_nat T) expected_count) (fsub 1 expected_count)
      in if radicand < 0 then Inl ValueError
         else let denom = fsqrt radicand
              in if denom = 0 then Inl ZeroDivisionError else Inr (fdiv numer denom))"

record scan_state =
  green_token_count :: nat
  green_token_mask :: "bool list"
  depth_hit :: "nat list"
  mark :: string
  gen :: generator

fun depth_hit_loop :: "nat list \<Rightarrow> nat list list \<Rightarrow> int \<Rightarrow> nat \<Rightarrow> error + nat list" where
  \<comment> \<open>the loop over \<open>j\<close>, lines 380 to 382\<close>
  "depth_hit_loop hits [] curr_token j = Inr hits"
| "depth_hit_loop hits (m # ms) curr_token j =
     (if contains m curr_token
      then (if j < length hits
            then depth_hit_loop (hits[j := hits ! j + 1]) ms curr_token (Suc j)
            else Inl IndexError)
      else depth_hit_loop hits ms curr_token (Suc j))"

definition preferance_at_idx :: "'a watermark_base_scheme \<Rightarrow> int list \<Rightarrow> nat \<Rightarrow> error + char" where
  \<comment> \<open>lines 360 to 364\<close>
  "preferance_at_idx self input_ids idx =
     (let n = length (userid self) in
      if wm_mode self = ''previous1''
      then and_then (item_at input_ids (int idx - 1)) (\<lambda>t1.
           and_then (tensor_mod t1 n) (item_at (userid self)))
      else and_then (item_at input_ids (int idx - 1)) (\<lambda>t1.
           and_then (item_at input_ids (int idx - 2)) (\<lambda>t2.
           and_then (tensor_mod (int64_mul t1 t2) n) (item_at (userid self)))))"

definition score_step ::
  "permutation_algorithm \<Rightarrow> 'a watermark_base_scheme \<Rightarrow> int list \<Rightarrow> nat \<Rightarrow> scan_state
   \<Rightarrow> error + scan_state" where
  \<comment> \<open>one round of the loop over \<open>idx\<close>, lines 359 to 392\<close>
  "score_step perm self input_ids idx st =
     and_then (item_at input_ids (int idx)) (\<lambda>curr_token.
     and_then (preferance_at_idx self input_ids idx) (\<lambda>preferance.
     and_then (get_greenlist_ids perm self (gen st) (slice_to input_ids (int idx)))
       (\<lambda>((green, red, green_d, red_d), g').
     let greenlist_ids = (if preferance = CHR ''1'' then green else red);
         d_masks = (if preferance = CHR ''1'' then green_d else red_d)
     in
     if contains greenlist_ids curr_token then
       and_then
         (if gen_mode (args self) = ''depth_d''
          then depth_hit_loop (depth_hit st) d_masks curr_token 0
          else Inr (depth_hit st))
         (\<lambda>hits. Inr \<lparr>green_token_count = green_token_count st + 1,
                       green_token_mask = green_token_mask st @ [True],
                       depth_hit = hits,
                       mark = mark st @ (if preferance = CHR ''1'' then ''1'' else ''0''),
                       gen = g'\<rparr>)
     else
       Inr \<lparr>green_token_count = green_token_count st,
            green_token_mask = green_token_mask st @ [False],
            depth_hit = depth_hit st,
            mark = mark st @ (if preferance = CHR ''0'' then ''1'' else ''0''),
            gen = g'\<rparr>)))"

fun score_loop ::
  "permutation_algorithm \<Rightarrow> 'a watermark_base_scheme \<Rightarrow> int list \<Rightarrow> nat list \<Rightarrow> scan_state
   \<Rightarrow> error + scan_state" where
  "score_loop perm self input_ids [] st = Inr st"
| "score_loop perm self input_ids (idx # rest) st =
     and_then (score_step perm self input_ids idx st) (score_loop perm self input_ids rest)"

record score_dict =
  num_tokens_scored :: nat
  num_green_tokens :: nat
  green_fraction :: real
  z_score :: real
  p_value :: real

record output_dict = score_dict +
  prediction :: bool
  confidence :: "real option"     \<comment> \<open>the key is set only for a positive prediction\<close>

text \<open>
  \<open>_score_sequence\<close>, standard method. Line 353 builds \<open>torch.zeros(self.args.depth)\<close>
  before the scan: \<open>TypeError\<close> when the depth is \<open>None\<close>, \<open>RuntimeError\<close> when it
  is negative. The value returned names \<open>total_loss\<close>, which is assigned under
  \<open>gen_mode == "depth_d"\<close> only: in any other mode the return raises
  \<open>UnboundLocalError\<close>.
\<close>

definition score_sequence ::
  "permutation_algorithm \<Rightarrow> (real \<Rightarrow> real) \<Rightarrow> (nat list \<Rightarrow> nat \<Rightarrow> nat \<Rightarrow> error + 'l)
   \<Rightarrow> 'a detector_scheme \<Rightarrow> generator \<Rightarrow> int list
   \<Rightarrow> error + ((score_dict \<times> real \<times> 'l \<times> string) \<times> generator)" where
  "score_sequence perm sf loss self g input_ids =
     (let scored = int (length input_ids) - int (min_prefix_len self) in
      if scored < 1 then Inl ValueError
      else
        (case depth (args self) of
           None \<Rightarrow> Inl TypeError
         | Some d \<Rightarrow>
             if d < 0 then Inl RuntimeError
             else
               and_then
                 (score_loop perm self input_ids [min_prefix_len self..<length input_ids]
                    \<lparr>green_token_count = 0, green_token_mask = [],
                     depth_hit = replicate (nat d) 0, mark = [], gen = g\<rparr>)
                 (\<lambda>st.
               let T = nat scored;
                   green_count = green_token_count st;
                   fraction = round_double (real green_count / real T)
               in
               and_then (compute_z_score self green_count T) (\<lambda>z.
               let scores = \<lparr>num_tokens_scored = T, num_green_tokens = green_count,
                             green_fraction = fraction, z_score = z, p_value = sf z\<rparr>;
                   sim_score = round_double (real green_count / real T)
               in
               if gen_mode (args self) = ''depth_d''
               then and_then (loss (depth_hit st) green_count T)
                      (\<lambda>total_loss. Inr ((scores, sim_score, total_loss, mark st), gen st))
               else Inl UnboundLocalError))))"

fun run_normalizers ::
  "(string option \<Rightarrow> error + string option) list \<Rightarrow> string option \<Rightarrow> error + string option" where
  \<comment> \<open>lines 457 and 458: \<open>for normalizer in self.normalizers: text = normalizer(text)\<close>\<close>
  "run_normalizers [] text = Inr text"
| "run_normalizers (normalizer # rest) text =
     and_then (normalizer text) (run_normalizers rest)"

definition strip_bos :: "int option \<Rightarrow> int list \<Rightarrow> error + int list" where
  \<comment> \<open>\<open>if tokenized_text[0] == bos_token_id: tokenized_text = tokenized_text[1:]\<close>\<close>
  "strip_bos bos tokenized_text =
     and_then (item_at tokenized_text 0) (\<lambda>first.
       Inr (if Some first = bos then slice_from tokenized_text 1 else tokenized_text))"

definition input_tokens :: "'a detector_scheme \<Rightarrow> string option \<Rightarrow> int list option \<Rightarrow> error + int list" where
  \<comment> \<open>lines 462 to 476: tokenize the text, or take the ids given; drop a leading bos\<close>
  "input_tokens self text tokenized_text =
     (case tokenized_text of
        None \<Rightarrow> and_then (tokenize self text) (strip_bos (bos_token_id self))
      | Some ids \<Rightarrow> strip_bos (bos_token_id self) ids)"

definition chosen_threshold :: "real option \<Rightarrow> real option \<Rightarrow> real option" where
  \<comment> \<open>\<open>z_threshold if z_threshold else self.z_threshold\<close>: 0.0 is falsy\<close>
  "chosen_threshold given configured =
     (case given of
        None \<Rightarrow> configured
      | Some v \<Rightarrow> if v \<noteq> 0 then Some v else configured)"

definition detect ::
  "permutation_algorithm \<Rightarrow> (real \<Rightarrow> real) \<Rightarrow> (nat list \<Rightarrow> nat \<Rightarrow> nat \<Rightarrow> error + 'l)
   \<Rightarrow> 'a detector_scheme \<Rightarrow> generator \<Rightarrow> string option \<Rightarrow> int list option \<Rightarrow> real option
   \<Rightarrow> error + ((output_dict \<times> real \<times> 'l \<times> string) \<times> generator)" where
  \<comment> \<open>\<open>return_prediction\<close> and \<open>return_scores\<close> at their defaults\<close>
  "detect perm sf loss self g text tokenized_text threshold =
     (if (text \<noteq> None) = (tokenized_text \<noteq> None)
      then Inl (AssertionError Raw_or_tokenized)
      else
        and_then (run_normalizers (normalizers self) text) (\<lambda>text'.
        and_then (input_tokens self text' tokenized_text) (\<lambda>ids.
        and_then (score_sequence perm sf loss self g ids)
          (\<lambda>((scores, gr_score, depth_score, mark_bits), g').
        case chosen_threshold threshold (z_threshold self) of
          None \<Rightarrow> Inl (AssertionError Need_threshold)
        | Some v \<Rightarrow>
            let positive = (z_score scores > v) in
            Inr ((\<lparr>num_tokens_scored = num_tokens_scored scores,
                   num_green_tokens = num_green_tokens scores,
                   green_fraction = green_fraction scores,
                   z_score = z_score scores,
                   p_value = p_value scores,
                   prediction = positive,
                   confidence = (if positive then Some (fsub 1 (p_value scores)) else None)\<rparr>,
                  gr_score, depth_score, mark_bits), g')))))"

section \<open>The preference rule as the specification words it\<close>

text \<open>
  The specification's \<open>step_preference(userid, mode, t_minus_1, t_minus_2)\<close>:
  \<open>userid[t_minus_1 mod n]\<close> in mode previous1, \<open>userid[(t_minus_1 * t_minus_2) mod n]\<close>
  in mode combination, with \<open>n = len(userid)\<close>.
\<close>

definition step_preference :: "string \<Rightarrow> string \<Rightarrow> int \<Rightarrow> int \<Rightarrow> char" where
  "step_preference uid mode t_minus_1 t_minus_2 =
     (if mode = ''previous1'' then uid ! nat (t_minus_1 mod int (length uid))
      else uid ! nat ((t_minus_1 * t_minus_2) mod int (length uid)))"

section \<open>A permutation algorithm to run the model on\<close>

text \<open>
  Concrete runs need an algorithm that meets the contract of \<open>randperm\<close>: this one
  rotates the reversed range by the seed.
\<close>

definition rotation_perm :: permutation_algorithm where
  "rotation_perm s h n = rotate (nat (s mod 3)) (rev [0..<n])"

section \<open>Seeds the generator accepts, and configurations to run\<close>

definition seedable :: "int \<Rightarrow> bool" where
  "seedable s = (- (2 ^ 63) \<le> s \<and> s \<le> 2 ^ 64 - 1)"

definition example_base :: watermark_base where
  "example_base =
     \<lparr>vocab_size = 4, gamma = 0.5, decrease_delta = False, delta = 2,
      wm_mode = ''previous1'', seeding_scheme = ''simple_1'', hash_key = 15485863,
      userid = ''10'', args = \<lparr>gen_mode = ''normal'', depth = None\<rparr>\<rparr>"

definition example_depth_base :: watermark_base where
  "example_depth_base = example_base\<lparr>args := \<lparr>gen_mode = ''depth_d'', depth = Some 2\<rparr>\<rparr>"

definition example_detector :: detector where
  "example_detector =
     \<lparr>vocab_size = 4, gamma = 0.5, decrease_delta = False, delta = 2,
      wm_mode = ''previous1'', seeding_scheme = ''simple_1'', hash_key = 15485863,
      userid = ''10'', args = \<lparr>gen_mode = ''depth_d'', depth = Some 2\<rparr>,
      bos_token_id = Some 1,
      tokenize = (\<lambda>text. case text of None \<Rightarrow> Inl TypeError | Some t \<Rightarrow> Inr (map of_char t)),
      z_threshold = Some default_z_threshold, min_prefix_len = 1, normalizers = []\<rparr>"

definition scan_start :: scan_state where
  "scan_start =
     \<lparr>green_token_count = 0, green_token_mask = [], depth_hit = [0, 0], mark = [],
      gen = new_generator\<rparr>"

definition scan_after_hit :: scan_state where
  "scan_after_hit =
     \<lparr>green_token_count = 1, green_token_mask = [True], depth_hit = [0, 0], mark = ''0'',
      gen = \<lparr>seed = 30971726, drawn = [2]\<rparr>\<rparr>"

definition example_quarter_base :: watermark_base where
  "example_quarter_base =
     example_base\<lparr>gamma := 0.25, args := \<lparr>gen_mode = ''depth_d'', depth = Some 1\<rparr>\<rparr>"

definition example_normal_detector :: detector where
  "example_normal_detector = example_detector\<lparr>args := \<lparr>gen_mode = ''normal'', depth = None\<rparr>\<rparr>"

definition example_scored_detector :: detector where
  "example_scored_detector = example_detector\<lparr>args := \<lparr>gen_mode = ''normal'', depth = Some 3\<rparr>\<rparr>"

definition example_tenth_base :: watermark_base where
  \<comment> \<open>ten ids and the double nearest to 0.3\<close>
  "example_tenth_base = example_base\<lparr>vocab_size := 10, gamma := 5404319552844595 / 2 ^ 54\<rparr>"

section \<open>Doubles\<close>

lemma int_power_bounds:
  fixes a :: int
  assumes "1 \<le> a"
  shows "2 powr real_of_int \<lfloor>log 2 (real_of_int a)\<rfloor> \<le> real_of_int a"
    and "real_of_int a + 1 \<le> 2 powr real_of_int (\<lfloor>log 2 (real_of_int a)\<rfloor> + 1)"
proof -
  define k where "k = \<lfloor>log 2 (real_of_int a)\<rfloor>"
  have pos: "0 < real_of_int a" using assms by simp
  have "0 \<le> log 2 (real_of_int a)" using assms by simp
  then have k0: "0 \<le> k" by (simp add: k_def)
  have b: "2 powr real_of_int k \<le> real_of_int a \<and> real_of_int a < 2 powr real_of_int (k + 1)"
    using floor_log_eq_powr_iff[of "real_of_int a" 2 k] pos by (simp add: k_def)
  then show "2 powr real_of_int \<lfloor>log 2 (real_of_int a)\<rfloor> \<le> real_of_int a"
    by (simp add: k_def)
  have "real_of_int (k + 1) = real (nat (k + 1))"
    using k0 by simp
  then have "2 powr real_of_int (k + 1) = 2 ^ nat (k + 1)"
    by (metis powr_realpow zero_less_numeral)
  then have p: "2 powr real_of_int (k + 1) = real_of_int (2 ^ nat (k + 1))"
    by simp
  then have "real_of_int a < real_of_int (2 ^ nat (k + 1))"
    using b by (simp only:)
  then have "a < 2 ^ nat (k + 1)"
    by (simp only: of_int_less_iff)
  then have "a + 1 \<le> 2 ^ nat (k + 1)" by simp
  then have "real_of_int (a + 1) \<le> real_of_int (2 ^ nat (k + 1))"
    by (simp only: of_int_le_iff)
  then have "real_of_int a + 1 \<le> real_of_int (2 ^ nat (k + 1))"
    by simp
  then have "real_of_int a + 1 \<le> 2 powr real_of_int (k + 1)"
    using p by linarith
  then show "real_of_int a + 1 \<le> 2 powr real_of_int (\<lfloor>log 2 (real_of_int a)\<rfloor> + 1)"
    by (simp only: k_def)
qed

lemma float_exponent_log:
  assumes "0 < x"
  shows "float_exponent x = \<lfloor>log 2 x\<rfloor>"
proof (cases "1 \<le> x")
  case True
  define a where "a = \<lfloor>x\<rfloor>"
  have a1: "1 \<le> a" using True by (simp add: a_def)
  define k where "k = \<lfloor>log 2 (real_of_int a)\<rfloor>"
  have fe: "float_exponent x = k"
    using True a1 by (simp add: float_exponent_def bitlen_alt_def a_def k_def)
  have "real_of_int a \<le> x" "x < real_of_int a + 1"
    by (simp_all add: a_def)
  then have "2 powr real_of_int k \<le> x" "x < 2 powr real_of_int (k + 1)"
    using int_power_bounds[OF a1] unfolding k_def[symmetric] by linarith+
  then have "\<lfloor>log 2 x\<rfloor> = k"
    using floor_log_eq_powr_iff[of x 2 k] assms by simp
  then show ?thesis using fe by simp
next
  case False
  define y where "y = 1 / x"
  have y1: "1 < y" using False assms by (simp add: y_def)
  define a where "a = \<lceil>y\<rceil> - 1"
  have a1: "1 \<le> a" using y1 by (simp add: a_def)
  define k where "k = \<lfloor>log 2 (real_of_int a)\<rfloor>"
  have fe: "float_exponent x = - (k + 1)"
    using False a1 by (simp add: float_exponent_def bitlen_alt_def a_def k_def y_def)
  have ay: "real_of_int a < y" "y \<le> real_of_int a + 1"
    unfolding a_def by linarith+
  have lo: "2 powr real_of_int k < y" and hi: "y \<le> 2 powr real_of_int (k + 1)"
    using int_power_bounds[OF a1] ay unfolding k_def[symmetric] by linarith+
  have x: "x = 1 / y" using assms by (simp add: y_def)
  have ypos: "0 < y" using y1 by simp
  have "2 powr real_of_int (- (k + 1)) = 1 / 2 powr real_of_int (k + 1)"
    by (simp only: of_int_minus powr_minus_divide)
  also have "\<dots> \<le> 1 / y"
    using hi ypos by (simp add: frac_le)
  finally have l: "2 powr real_of_int (- (k + 1)) \<le> x" by (simp add: x)
  have "1 / y < 1 / 2 powr real_of_int k"
    using lo by (simp add: frac_less2)
  also have "\<dots> = 2 powr real_of_int (- (k + 1) + 1)"
  proof -
    have "- (k + 1) + 1 = - k" by simp
    then show ?thesis by (simp only: of_int_minus powr_minus_divide)
  qed
  finally have u: "x < 2 powr real_of_int (- (k + 1) + 1)" by (simp add: x)
  have "\<lfloor>log 2 x\<rfloor> = - (k + 1)"
    using floor_log_eq_powr_iff[of x 2 "- (k + 1)"] assms l u by simp
  then show ?thesis using fe by simp
qed

lemma round_half_even_nonneg: "0 \<le> m \<Longrightarrow> 0 \<le> round_half_even m"
  unfolding round_half_even_def Let_def by (auto intro: add_nonneg_nonneg)

lemma round_double_nonneg:
  assumes "0 \<le> x"
  shows "0 \<le> round_double x"
proof (cases "x = 0")
  case True
  then show ?thesis by (simp add: round_double_def)
next
  case False
  define ulp :: real where "ulp = 2 powi (max (float_exponent \<bar>x\<bar>) (- 1022) - 52)"
  have u: "0 < ulp" by (simp add: ulp_def)
  then have "0 \<le> x / ulp" using assms by simp
  then have "0 \<le> round_half_even (x / ulp)" by (rule round_half_even_nonneg)
  then have "0 \<le> real_of_int (round_half_even (x / ulp)) * ulp"
    using u by simp
  then show ?thesis
    using False by (simp add: round_double_def Let_def ulp_def)
qed

lemma greenlist_size_nonneg:
  assumes "0 \<le> gamma self"
  shows "0 \<le> greenlist_size_of self"
proof -
  have "0 \<le> float_of_nat (vocab_size self)"
    unfolding float_of_nat_def by (rule round_double_nonneg) simp
  then have "0 \<le> float_of_nat (vocab_size self) * gamma self"
    using assms by simp
  then have "0 \<le> fmul (float_of_nat (vocab_size self)) (gamma self)"
    unfolding fmul_def by (rule round_double_nonneg)
  then show ?thesis
    by (simp add: greenlist_size_of_def py_int_def)
qed

lemma greenlist_size_exact:
  assumes "0 \<le> gamma self"
    and "round_double (real (vocab_size self)) = real (vocab_size self)"
    and "round_double (real (vocab_size self) * gamma self) = real (vocab_size self) * gamma self"
  shows "greenlist_size_of self = \<lfloor>gamma self * real (vocab_size self)\<rfloor>"
proof -
  have "0 \<le> real (vocab_size self) * gamma self"
    using assms(1) by simp
  then have "py_int (real (vocab_size self) * gamma self) = \<lfloor>real (vocab_size self) * gamma self\<rfloor>"
    by (simp add: py_int_def)
  moreover have "greenlist_size_of self = py_int (real (vocab_size self) * gamma self)"
    unfolding greenlist_size_of_def fmul_def float_of_nat_def by (simp only: assms(2,3))
  ultimately show ?thesis
    by (simp only: mult.commute)
qed

lemma slices_append: "slice_to xs k @ slice_from xs k = xs"
  by (simp add: slice_to_def slice_from_def)

lemma slice_lengths:
  "length (slice_to xs k) = norm_index (length xs) k"
  "length (slice_from xs k) = length xs - norm_index (length xs) k"
  by (auto simp: slice_to_def slice_from_def norm_index_def)

lemma norm_index_nonneg: "0 \<le> k \<Longrightarrow> int (norm_index n k) = min (int n) k"
  by (auto simp: norm_index_def)

section \<open>Sequencing, seeding and the permutation contract\<close>

lemma and_then_Inr_iff: "and_then m f = Inr y \<longleftrightarrow> (\<exists>x. m = Inr x \<and> f x = Inr y)"
  by (cases m) (simp_all add: and_then_def)

lemma and_then_Inr [simp]: "and_then (Inr x) f = f x"
  by (simp add: and_then_def)

lemma and_then_Inl [simp]: "and_then (Inl e) f = Inl e"
  by (simp add: and_then_def)

lemma manual_seed_Inr:
  "manual_seed s g = Inr g' \<Longrightarrow> g' = \<lparr>seed = seed_of s, drawn = []\<rparr>"
  by (auto simp: manual_seed_def split: if_splits)

lemma manual_seed_state: "manual_seed s g = manual_seed s g'"
  by (simp add: manual_seed_def)

lemma seed_rng_Inr:
  "seed_rng self g ids = Inr g' \<Longrightarrow>
     ids \<noteq> [] \<and> g' = \<lparr>seed = seed_of (hash_key self * last ids), drawn = []\<rparr>"
  unfolding seed_rng_def by (auto split: if_splits dest: manual_seed_Inr)

lemma permutes_rangeD:
  assumes "permutes_range perm"
  shows "length (perm s h n) = n" "set (perm s h n) = {0..<n}" "distinct (perm s h n)"
proof -
  have m: "mset (perm s h n) = mset [0..<n]"
    using assms by (simp add: permutes_range_def)
  show "length (perm s h n) = n"
    using m by (metis length_upt mset_eq_length minus_nat.diff_0)
  show "set (perm s h n) = {0..<n}"
    using m by (metis mset_eq_setD set_upt)
  show "distinct (perm s h n)"
    using m by (metis distinct_upt mset_eq_imp_distinct_iff)
qed

lemma get_greenlist_ids_partition:
  assumes "get_greenlist_ids perm self g ids = Inr ((green, red, gm, rm), g')"
  shows "ids \<noteq> [] \<and>
           green = slice_to (perm (seed_of (hash_key self * last ids)) [] (vocab_size self))
                     (greenlist_size_of self) \<and>
           red = slice_from (perm (seed_of (hash_key self * last ids)) [] (vocab_size self))
                   (greenlist_size_of self)"
  using assms unfolding get_greenlist_ids_def
  by (auto simp: and_then_Inr_iff randperm_def Let_def split: if_splits option.splits dest!: seed_rng_Inr)

lemma manual_seed_seedable:
  "seedable s \<Longrightarrow> manual_seed s g = Inr \<lparr>seed = seed_of s, drawn = []\<rparr>"
  by (simp add: manual_seed_def seedable_def)

lemma index_select_perm:
  assumes "permutes_range perm" "n \<le> length xs"
  shows "index_select xs (perm s h n) = Inr (map (nth xs) (perm s h n))"
  using assms permutes_rangeD(2)[OF assms(1), of s h n]
  by (auto simp: index_select_def list_all_iff)

lemma item_at_last: "xs \<noteq> [] \<Longrightarrow> item_at xs (- 1) = Inr (last xs)"
  by (cases xs rule: rev_cases) (auto simp: item_at_def nat_add_distrib)

lemma depth_red_ids_of_returns:
  assumes "permutes_range perm" "length green \<le> length red"
  shows "\<exists>ys. depth_red_ids_of green red (perm s h (length green)) = Inr ys"
proof (cases "length red = length green")
  case True
  then show ?thesis
    using index_select_perm[OF assms(1), of "length green" red s h]
    by (simp add: depth_red_ids_of_def)
next
  case False
  then have lt: "length green \<le> length (butlast red)" and ne: "red \<noteq> []"
    using assms(2) by auto
  show ?thesis
    using False index_select_perm[OF assms(1) lt, of s h] item_at_last[OF ne]
    by (simp add: depth_red_ids_of_def)
qed

lemma get_greenlist_ids_returns:
  assumes perm: "permutes_range perm"
    and scheme: "seeding_scheme self = ''simple_1''" and ids: "ids \<noteq> []"
    and s1: "seedable (hash_key self * last ids)"
    and uid: "int_base2 (userid self) = Inr u" and s2: "seedable (hash_key self * u)"
    and half: "2 * norm_index (vocab_size self) (greenlist_size_of self) \<le> vocab_size self"
    and mode: "gen_mode (args self) \<noteq> ''depth_d'' \<or> (\<exists>d. depth (args self) = Some d \<and> d \<noteq> 0)"
  shows "\<exists>res g'. get_greenlist_ids perm self g ids = Inr (res, g')"
proof -
  define V where "V = vocab_size self"
  define s where "s = seed_of (hash_key self * last ids)"
  define k where "k = greenlist_size_of self"
  define green where "green = slice_to (perm s [] V) k"
  define red where "red = slice_from (perm s [] V) k"
  define p where "p = perm (seed_of (hash_key self * u)) [] (length green)"
  have lp: "length (perm s [] V) = V"
    by (rule permutes_rangeD(1)[OF perm])
  have lg: "length green = norm_index V k" and lr: "length red = V - norm_index V k"
    unfolding green_def red_def by (simp_all add: slice_lengths lp)
  have le: "length green \<le> length red"
    using half unfolding lg lr V_def k_def by linarith
  obtain ys where ys: "depth_red_ids_of green red p = Inr ys"
    using depth_red_ids_of_returns[OF perm le] unfolding p_def by blast
  have gs: "index_select green p = Inr (map (nth green) p)"
    unfolding p_def by (rule index_select_perm[OF perm]) simp
  have seed1: "seed_rng self g ids = Inr \<lparr>seed = s, drawn = []\<rparr>"
    using scheme ids manual_seed_seedable[OF s1]
    by (cases ids) (simp_all add: seed_rng_def s_def)
  have seed2: "\<And>g2. seed_depth_rng self g2 = Inr \<lparr>seed = seed_of (hash_key self * u), drawn = []\<rparr>"
    using uid manual_seed_seedable[OF s2] by (simp add: seed_depth_rng_def)
  show ?thesis
    unfolding get_greenlist_ids_def
    using mode
    by (auto simp: seed1 seed2 randperm_def Let_def gs ys
        V_def[symmetric] k_def[symmetric] green_def[symmetric] red_def[symmetric] p_def[symmetric]
        split: option.splits)
qed

section \<open>The green and red lists\<close>

lemma mset_rotate_eq: "mset (rotate n xs) = mset xs"
proof -
  have "mset (rotate n xs) = mset (drop (n mod length xs) xs) + mset (take (n mod length xs) xs)"
    by (simp add: rotate_drop_take)
  also have "\<dots> = mset (take (n mod length xs) xs @ drop (n mod length xs) xs)"
    by (simp only: mset_append add.commute)
  finally show ?thesis by simp
qed

lemma permutes_range_rotation_perm: "permutes_range rotation_perm"
  unfolding permutes_range_def rotation_perm_def
  by (simp only: mset_rotate_eq mset_rev) simp

text \<open>
  C1. The green and red lists depend on the hash key, the vocabulary size, gamma and the
  previous token only. On one instance, two calls whose histories end with the same token
  have the same outcome, whatever state the generator was left in and whatever came
  before that token; on two instances that agree on the key, the size and gamma, two
  calls that return give the same green and the same red list.
\<close>

theorem greenlist_deterministic:
  assumes "hash_key a = hash_key b" "vocab_size a = vocab_size b" "gamma a = gamma b"
    and "ids \<noteq> []" "ids' \<noteq> []" "last ids = last ids'"
  shows "get_greenlist_ids perm a g ids = get_greenlist_ids perm a g' ids' \<and>
         (\<forall>green red gd rd g1 green' red' gd' rd' g1'.
            get_greenlist_ids perm a g ids = Inr ((green, red, gd, rd), g1) \<and>
            get_greenlist_ids perm b g' ids' = Inr ((green', red', gd', rd'), g1')
            \<longrightarrow> green = green' \<and> red = red')"
proof
  have "seed_rng a g ids = seed_rng a g' ids'"
    using assms(4-6) manual_seed_state[of _ g g'] by (cases ids; cases ids') (simp_all add: seed_rng_def)
  then show "get_greenlist_ids perm a g ids = get_greenlist_ids perm a g' ids'"
    by (simp add: get_greenlist_ids_def)
next
  show "\<forall>green red gd rd g1 green' red' gd' rd' g1'.
            get_greenlist_ids perm a g ids = Inr ((green, red, gd, rd), g1) \<and>
            get_greenlist_ids perm b g' ids' = Inr ((green', red', gd', rd'), g1')
            \<longrightarrow> green = green' \<and> red = red'"
    using assms(1-3,6) by (auto dest!: get_greenlist_ids_partition simp: greenlist_size_of_def)
qed


text \<open>
  C2, as amended. For a vocabulary of at least one id and gamma between 0 and 1, whenever
  \<open>_get_greenlist_ids\<close> returns, the green and the red list are disjoint, cover the ids
  below the vocabulary size, have no repetition, have sizes that add up to the vocabulary
  size, and are the two sides of the permutation drawn for the seed, cut at the green size.
  The green size is \<open>int(V * gamma)\<close> as line 95 computes it, a product of doubles, or
  \<open>V\<close> if that is larger; it is \<open>floor(gamma * V)\<close> when the conversion of \<open>V\<close> and
  the product are exact. The claim as stated fails where the product is rounded: with ten
  ids and the double nearest to 0.3 the product is rounded to 3.0 and the green list has 3
  ids, where the floor of the exact product is 2; with a hundred ids and the double nearest
  to 0.29 the green size is 28, where \<open>floor(0.29 * 100)\<close> is 29.
\<close>

theorem partition_coverage:
  assumes "permutes_range perm" and "1 \<le> vocab_size self"
    and "0 \<le> gamma self" and "gamma self \<le> 1"
    and "get_greenlist_ids perm self g input_ids = Inr ((green, red, green_d, red_d), g')"
  shows "set green \<inter> set red = {} \<and>
         set green \<union> set red = {0..<vocab_size self} \<and>
         distinct green \<and> distinct red \<and>
         length green + length red = vocab_size self \<and>
         int (length green) = min (int (vocab_size self)) (greenlist_size_of self) \<and>
         (round_double (real (vocab_size self)) = real (vocab_size self) \<and>
          round_double (real (vocab_size self) * gamma self) = real (vocab_size self) * gamma self
          \<longrightarrow> int (length green) = \<lfloor>gamma self * real (vocab_size self)\<rfloor>) \<and>
         green = slice_to (perm (seed_of (hash_key self * last input_ids)) [] (vocab_size self))
                   (greenlist_size_of self) \<and>
         red = slice_from (perm (seed_of (hash_key self * last input_ids)) [] (vocab_size self))
                 (greenlist_size_of self)"
proof -
  define p where "p = perm (seed_of (hash_key self * last input_ids)) [] (vocab_size self)"
  define k where "k = greenlist_size_of self"
  have green: "green = slice_to p k" and red: "red = slice_from p k"
    using get_greenlist_ids_partition[OF assms(5)] by (simp_all add: p_def k_def)
  have p: "length p = vocab_size self" "set p = {0..<vocab_size self}" "distinct p"
    unfolding p_def using permutes_rangeD[OF assms(1)] by auto
  have k0: "0 \<le> k"
    unfolding k_def by (rule greenlist_size_nonneg[OF assms(3)])
  have split: "green @ red = p"
    by (simp add: green red slices_append)
  have d: "distinct (green @ red)"
    using split p(3) by simp
  have size: "int (length green) = min (int (vocab_size self)) k"
    using norm_index_nonneg[OF k0, of "vocab_size self"] by (simp add: green slice_lengths p(1))
  have exact: "round_double (real (vocab_size self)) = real (vocab_size self) \<and>
          round_double (real (vocab_size self) * gamma self) = real (vocab_size self) * gamma self
          \<longrightarrow> int (length green) = \<lfloor>gamma self * real (vocab_size self)\<rfloor>"
  proof
    assume e: "round_double (real (vocab_size self)) = real (vocab_size self) \<and>
          round_double (real (vocab_size self) * gamma self) = real (vocab_size self) * gamma self"
    then have kf: "k = \<lfloor>gamma self * real (vocab_size self)\<rfloor>"
      unfolding k_def using greenlist_size_exact[OF assms(3)] by blast
    have "gamma self * real (vocab_size self) \<le> real (vocab_size self)"
      using assms(3,4) by (simp add: mult_left_le_one_le)
    then have "\<lfloor>gamma self * real (vocab_size self)\<rfloor> \<le> int (vocab_size self)"
      by linarith
    then show "int (length green) = \<lfloor>gamma self * real (vocab_size self)\<rfloor>"
      using size kf by simp
  qed
  have a: "set green \<inter> set red = {}" using d by simp
  have b: "set green \<union> set red = {0..<vocab_size self}"
    using split p(2) by (metis set_append)
  have c: "distinct green" "distinct red" using d by simp_all
  have e: "length green + length red = vocab_size self"
    using split p(1) by (metis length_append)
  show ?thesis
    using a b c e size exact green red unfolding p_def k_def by blast
qed

theorem partition_size_counterexample:
  "get_greenlist_ids rotation_perm example_tenth_base new_generator [3]
     = Inr (([9, 8, 7], [6, 5, 4, 3, 2, 1, 0], [], []), \<lparr>seed = 30971726, drawn = [3]\<rparr>) \<and>
   1 \<le> vocab_size example_tenth_base \<and>
   0 \<le> gamma example_tenth_base \<and> gamma example_tenth_base \<le> 1 \<and>
   gamma example_tenth_base = round_double (3 / 10) \<and>
   \<lfloor>gamma example_tenth_base * real (vocab_size example_tenth_base)\<rfloor> = 2 \<and>
   int (length [9, 8, 7::nat])
     \<noteq> \<lfloor>gamma example_tenth_base * real (vocab_size example_tenth_base)\<rfloor> \<and>
   greenlist_size_of (example_base\<lparr>vocab_size := 100, gamma := round_double (29 / 100)\<rparr>) = 28 \<and>
   \<lfloor>(29 / 100) * real (100::nat)\<rfloor> = (29::int)"
  by code_simp

theorem partition_coverage_witness:
  "get_greenlist_ids rotation_perm example_base new_generator [3]
     = Inr (([3, 2], [1, 0], [], []), \<lparr>seed = 30971726, drawn = [2]\<rparr>) \<and>
   set [3, 2::nat] \<inter> set [1, 0] = {} \<and>
   set [3, 2::nat] \<union> set [1, 0] = {0..<vocab_size example_base} \<and>
   distinct [3, 2::nat] \<and> distinct [1, 0::nat] \<and>
   length [3, 2::nat] + length [1, 0::nat] = vocab_size example_base \<and>
   int (length [3, 2::nat]) = min (int (vocab_size example_base)) (greenlist_size_of example_base) \<and>
   [3, 2] = slice_to (rotation_perm (seed_of (hash_key example_base * last [3])) []
                        (vocab_size example_base)) (greenlist_size_of example_base) \<and>
   [1, 0] = slice_from (rotation_perm (seed_of (hash_key example_base * last [3])) []
                          (vocab_size example_base)) (greenlist_size_of example_base) \<and>
   round_double (real (vocab_size example_base)) = real (vocab_size example_base) \<and>
   round_double (real (vocab_size example_base) * gamma example_base)
     = real (vocab_size example_base) * gamma example_base \<and>
   int (length [3, 2::nat]) = \<lfloor>gamma example_base * real (vocab_size example_base)\<rfloor>"
proof -
  have run: "get_greenlist_ids rotation_perm example_base new_generator [3]
     = Inr (([3, 2], [1, 0], [], []), \<lparr>seed = 30971726, drawn = [2]\<rparr>)"
    by code_simp
  have pre: "1 \<le> vocab_size example_base" "0 \<le> gamma example_base" "gamma example_base \<le> 1"
    by (simp_all add: example_base_def)
  have exact: "round_double (real (vocab_size example_base)) = real (vocab_size example_base) \<and>
    round_double (real (vocab_size example_base) * gamma example_base)
      = real (vocab_size example_base) * gamma example_base"
    by code_simp
  note all = partition_coverage[OF permutes_range_rotation_perm pre run]
  note r1 = all[THEN conjunct2]
  note r2 = r1[THEN conjunct2]
  note r3 = r2[THEN conjunct2]
  note r4 = r3[THEN conjunct2]
  note r5 = r4[THEN conjunct2]
  note r6 = r5[THEN conjunct2]
  note r7 = r6[THEN conjunct2]
  note r8 = r7[THEN conjunct2]
  have size: "int (length [3, 2::nat]) = \<lfloor>gamma example_base * real (vocab_size example_base)\<rfloor>"
    by (rule r6[THEN conjunct1, THEN mp, OF exact])
  show ?thesis
    by (intro conjI run all[THEN conjunct1] r1[THEN conjunct1] r2[THEN conjunct1]
        r3[THEN conjunct1] r4[THEN conjunct1] r5[THEN conjunct1] r7[THEN conjunct1] r8
        exact[THEN conjunct1] exact[THEN conjunct2] size)
qed

theorem greenlist_deterministic_witness:
  "get_greenlist_ids rotation_perm example_base new_generator [3]
     = get_greenlist_ids rotation_perm example_base \<lparr>seed = 5, drawn = [4, 2]\<rparr> [7, 3] \<and>
   get_greenlist_ids rotation_perm example_base new_generator [3]
     = Inr (([3, 2], [1, 0], [], []), \<lparr>seed = 30971726, drawn = [2]\<rparr>) \<and>
   get_greenlist_ids rotation_perm example_depth_base \<lparr>seed = 5, drawn = [4, 2]\<rparr> [7, 3]
     = Inr (([3, 2], [1, 0], [[2], [3]], [[0], [1]]), \<lparr>seed = 30971726, drawn = [2]\<rparr>)"
proof -
  have run: "get_greenlist_ids rotation_perm example_base new_generator [3]
     = Inr (([3, 2], [1, 0], [], []), \<lparr>seed = 30971726, drawn = [2]\<rparr>)"
    by code_simp
  have pre: "hash_key example_base = hash_key example_depth_base"
    "vocab_size example_base = vocab_size example_depth_base"
    "gamma example_base = gamma example_depth_base"
    "[3::int] \<noteq> []" "[7, 3::int] \<noteq> []" "last [3::int] = last [7, 3]"
    by (simp_all add: example_base_def example_depth_base_def)
  note both = greenlist_deterministic[OF pre, of rotation_perm new_generator
      "\<lparr>seed = 5, drawn = [4, 2]\<rparr>"]
  have run': "get_greenlist_ids rotation_perm example_depth_base \<lparr>seed = 5, drawn = [4, 2]\<rparr> [7, 3]
     = Inr (([3, 2], [1, 0], [[2], [3]], [[0], [1]]), \<lparr>seed = 30971726, drawn = [2]\<rparr>)"
    by code_simp
  have "[3, 2::nat] = [3, 2] \<and> [1, 0::nat] = [1, 0]"
    by (rule both[THEN conjunct2, rule_format, OF conjI[OF run run']])
  then show ?thesis
    using both[THEN conjunct1] run run' by simp
qed

section \<open>The detector\<close>

lemma compute_z_score_Inr:
  assumes "compute_z_score self c T = Inr z"
  shows "0 \<le> fmul (fmul (float_of_nat T) (gamma self)) (fsub 1 (gamma self)) \<and>
         fsqrt (fmul (fmul (float_of_nat T) (gamma self)) (fsub 1 (gamma self))) \<noteq> 0 \<and>
         z = fdiv (fsub (float_of_nat c) (fmul (gamma self) (float_of_nat T)))
               (fsqrt (fmul (fmul (float_of_nat T) (gamma self)) (fsub 1 (gamma self))))"
  using assms unfolding compute_z_score_def Let_def
  by (simp split: if_splits)

lemma score_sequence_Inr:
  assumes "score_sequence perm sf loss self g ids = Inr ((sd, gr, dloss, mk), g')"
  shows "1 \<le> num_tokens_scored sd \<and>
         int (num_tokens_scored sd) = int (length ids) - int (min_prefix_len self) \<and>
         compute_z_score self (num_green_tokens sd) (num_tokens_scored sd) = Inr (z_score sd) \<and>
         p_value sd = sf (z_score sd) \<and>
         gen_mode (args self) = ''depth_d''"
  using assms unfolding score_sequence_def Let_def
  by (auto simp: and_then_Inr_iff split: if_splits option.splits)

lemma detect_Inr:
  assumes "detect perm sf loss self g text tokenized_text threshold = Inr ((out, gr, dloss, mk), g')"
  shows "\<exists>ids sd v. score_sequence perm sf loss self g ids = Inr ((sd, gr, dloss, mk), g') \<and>
           chosen_threshold threshold (z_threshold self) = Some v \<and>
           num_tokens_scored out = num_tokens_scored sd \<and>
           num_green_tokens out = num_green_tokens sd \<and>
           green_fraction out = green_fraction sd \<and>
           z_score out = z_score sd \<and> p_value out = p_value sd \<and>
           prediction out = (z_score sd > v) \<and>
           confidence out = (if z_score sd > v then Some (fsub 1 (p_value sd)) else None)"
proof -
  from assms obtain ids sd v where
    run: "score_sequence perm sf loss self g ids = Inr ((sd, gr, dloss, mk), g')"
    and v: "chosen_threshold threshold (z_threshold self) = Some v"
    and out: "out = \<lparr>num_tokens_scored = num_tokens_scored sd,
                   num_green_tokens = num_green_tokens sd,
                   green_fraction = green_fraction sd,
                   z_score = z_score sd,
                   p_value = p_value sd,
                   prediction = (z_score sd > v),
                   confidence = (if z_score sd > v then Some (fsub 1 (p_value sd)) else None)\<rparr>"
    unfolding detect_def Let_def
    by (auto simp: and_then_Inr_iff split: if_splits option.splits)
  show ?thesis
    by (rule exI[of _ ids], rule exI[of _ sd], rule exI[of _ v]) (simp add: run v out)
qed

lemma detect_returns_in_depth_d_only:
  assumes "detect perm sf loss self g text tokenized_text threshold = Inr r"
  shows "gen_mode (args self) = ''depth_d''"
proof -
  obtain out gr dloss mk g' where r: "r = ((out, gr, dloss, mk), g')"
    by (metis prod.exhaust)
  obtain ids sd where "score_sequence perm sf loss self g ids = Inr ((sd, gr, dloss, mk), g')"
    using detect_Inr[OF assms[unfolded r]] by blast
  then show ?thesis
    by (rule score_sequence_Inr[THEN conjunct2, THEN conjunct2, THEN conjunct2, THEN conjunct2])
qed

lemma sqrt_quarter: "sqrt (1 / 4) = 1 / 2"
  by (simp add: real_sqrt_divide)

lemma sqrt_25: "sqrt 25 = 5"
  using real_sqrt_abs[of 5] by simp

lemma round_double_values:
  "round_double 1 = 1" "round_double (1 / 2) = 1 / 2" "round_double (1 / 4) = 1 / 4"
  "round_double 2 = 2" "round_double 5 = 5" "round_double 10 = 10" "round_double 25 = 25"
  "round_double 50 = 50" "round_double 60 = 60" "round_double 100 = 100"
  by code_simp+

lemma z_score_scenario:
  assumes "gamma self = 1 / 2"
  shows "compute_z_score self 60 100 = Inr 2"
proof -
  have f: "float_of_nat 60 = 60" "float_of_nat 100 = 100"
    by (simp_all add: float_of_nat_def round_double_values)
  have m: "fmul (1 / 2) 100 = 50" "fmul 100 (1 / 2) = 50" "fmul 50 (1 / 2) = 25"
    by (simp_all add: fmul_def round_double_values)
  have s: "fsub 60 50 = 10" "fsub 1 (1 / 2) = 1 / 2"
    by (simp_all add: fsub_def round_double_values)
  have q: "fsqrt 25 = 5"
    by (simp add: fsqrt_def sqrt_25 round_double_values)
  have dv: "fdiv 10 5 = 2"
    by (simp add: fdiv_def round_double_values)
  show ?thesis
    unfolding compute_z_score_def Let_def assms
    by (simp add: f m s q dv)
qed

lemma z_score_one_hit:
  assumes "gamma self = 1 / 2"
  shows "compute_z_score self (Suc 0) (Suc 0) = Inr 1"
proof -
  have f: "float_of_nat (Suc 0) = 1"
    by (simp add: float_of_nat_def round_double_values)
  have m: "fmul (1 / 2) 1 = 1 / 2" "fmul 1 (1 / 2) = 1 / 2" "fmul (1 / 2) (1 / 2) = 1 / 4"
    by (simp_all add: fmul_def round_double_values)
  have s: "fsub 1 (1 / 2) = 1 / 2"
    by (simp add: fsub_def round_double_values)
  have q: "fsqrt (1 / 4) = 1 / 2"
    by (simp add: fsqrt_def sqrt_quarter round_double_values)
  have dv: "fdiv (1 / 2) (1 / 2) = 1"
    by (simp add: fdiv_def round_double_values)
  show ?thesis
    unfolding compute_z_score_def Let_def assms
    by (simp add: f m s q dv)
qed

lemma score_sequence_other_mode:
  assumes "gen_mode (args self) \<noteq> ''depth_d''"
  shows "score_sequence perm sf loss self g ids \<noteq> Inr r"
  unfolding score_sequence_def Let_def using assms
  by (auto simp: and_then_Inr_iff split: option.splits)

lemma score_sequence_unbound:
  assumes "1 \<le> int (length ids) - int (min_prefix_len self)"
    and "depth (args self) = Some d" and "0 \<le> d"
    and "score_loop perm self ids [min_prefix_len self..<length ids]
           \<lparr>green_token_count = 0, green_token_mask = [], depth_hit = replicate (nat d) 0,
            mark = [], gen = g\<rparr> = Inr st"
    and "compute_z_score self (green_token_count st)
           (nat (int (length ids) - int (min_prefix_len self))) = Inr z"
    and "gen_mode (args self) \<noteq> ''depth_d''"
  shows "score_sequence perm sf loss self g ids = Inl UnboundLocalError"
  unfolding score_sequence_def Let_def using assms(1,3)
  by (simp add: assms(2,4,5,6))

text \<open>
  C3 at a failing input. A detector in mode normal with the depth 3, gamma 0.5, user id 10,
  and the token ids \<open>[3, 1]\<close>: the scan scores one token, a hit, the z-score computed is
  1, and the return of \<open>_score_sequence\<close> then names \<open>total_loss\<close>, which is bound under
  \<open>depth_d\<close> only, so \<open>detect\<close> raises \<open>UnboundLocalError\<close> and reports no z-score,
  p-value or prediction. A threshold of 0.0 passed to \<open>detect\<close> is replaced by the
  configured 4.0. The formula itself is as the claim has it: 60 hits among 100 tokens at
  gamma 0.5 give 2 (\<open>z_score_scenario\<close>).
\<close>

theorem detect_raises_outside_depth_d:
  "score_loop rotation_perm example_scored_detector [3, 1]
      [min_prefix_len example_scored_detector..<length [3, 1::int]]
      \<lparr>green_token_count = 0, green_token_mask = [], depth_hit = replicate (nat 3) 0, mark = [],
       gen = new_generator\<rparr>
    = Inr \<lparr>green_token_count = 1, green_token_mask = [True], depth_hit = [0, 0, 0], mark = ''0'',
           gen = \<lparr>seed = 30971726, drawn = [2]\<rparr>\<rparr> \<and>
   compute_z_score example_scored_detector 1 1 = Inr 1 \<and>
   score_sequence rotation_perm (\<lambda>z. 0) (\<lambda>hits c T. Inr ()) example_scored_detector
      new_generator [3, 1] = Inl UnboundLocalError \<and>
   detect rotation_perm (\<lambda>z. 0) (\<lambda>hits c T. Inr ()) example_scored_detector
      new_generator None (Some [3, 1]) None = Inl UnboundLocalError \<and>
   chosen_threshold (Some 0) (z_threshold example_scored_detector) = Some 4"
proof -
  have fields: "min_prefix_len example_scored_detector = 1"
    "depth (args example_scored_detector) = Some 3"
    "gen_mode (args example_scored_detector) \<noteq> ''depth_d''"
    "normalizers example_scored_detector = []" "bos_token_id example_scored_detector = Some 1"
    "z_threshold example_scored_detector = Some default_z_threshold"
    "gamma example_scored_detector = 1 / 2"
    by (simp_all add: example_scored_detector_def example_detector_def)
  have loop: "score_loop rotation_perm example_scored_detector [3, 1]
      [min_prefix_len example_scored_detector..<length [3, 1::int]]
      \<lparr>green_token_count = 0, green_token_mask = [], depth_hit = replicate (nat 3) 0, mark = [],
       gen = new_generator\<rparr>
    = Inr \<lparr>green_token_count = 1, green_token_mask = [True], depth_hit = [0, 0, 0], mark = ''0'',
           gen = \<lparr>seed = 30971726, drawn = [2]\<rparr>\<rparr>"
    by code_simp
  have z: "compute_z_score example_scored_detector (Suc 0) (Suc 0) = Inr 1"
    by (rule z_score_one_hit[OF fields(7)])
  have seq: "score_sequence rotation_perm (\<lambda>z. 0) (\<lambda>hits c T. Inr ()) example_scored_detector
      new_generator [3, 1] = Inl UnboundLocalError"
    using score_sequence_unbound[where sf = "\<lambda>z. 0" and loss = "\<lambda>hits c T. Inr ()" and z = 1,
        OF _ fields(2) _ loop _ fields(3)]
    by (simp add: fields(1) z)
  have toks: "input_tokens example_scored_detector None (Some [3, 1]) = Inr [3, 1]"
    by (simp add: input_tokens_def strip_bos_def item_at_def fields)
  have run: "detect rotation_perm (\<lambda>z. 0) (\<lambda>hits c T. Inr ()) example_scored_detector
      new_generator None (Some [3, 1]) None = Inl UnboundLocalError"
    unfolding detect_def by (simp add: fields(4) toks seq)
  have thr: "chosen_threshold (Some 0) (z_threshold example_scored_detector) = Some 4"
    by (simp add: chosen_threshold_def fields(6) default_z_threshold_def)
  have z1: "compute_z_score example_scored_detector 1 1 = Inr 1"
    using z by simp
  show ?thesis
    using loop z1 seq run thr by blast
qed

lemma item_at_mem: "item_at xs k = Inr x \<Longrightarrow> x \<in> set xs"
  by (auto simp: item_at_def split: if_splits)

lemma preferance_at_idx_mem:
  "preferance_at_idx self ids idx = Inr pref \<Longrightarrow> pref \<in> set (userid self)"
  unfolding preferance_at_idx_def Let_def
  by (auto simp: and_then_Inr_iff split: if_splits dest: item_at_mem)

lemma get_greenlist_ids_userid:
  assumes "get_greenlist_ids perm self g ids = Inr r"
  shows "list_all is_bit (userid self)"
proof -
  from assms obtain g2 g3 where "seed_depth_rng self g2 = Inr g3"
    unfolding get_greenlist_ids_def
    by (auto simp: and_then_Inr_iff randperm_def Let_def)
  then show ?thesis
    unfolding seed_depth_rng_def int_base2_def
    by (auto simp: and_then_Inr_iff split: if_splits)
qed

text \<open>
  C4, as amended. At a scored position the recorded mark bit is 1 exactly when the
  membership of the observed token in the markable set agrees with the preference bit
  being 1: the bit recorded is the preference bit when the token is in the markable set
  and the opposite bit when it is not. The hit count grows by one exactly when the token
  is in the markable set. The claim as stated fails where the preference bit is 0 and the
  token is in the red list: the token is in the markable set and the bit recorded is 0.
\<close>

theorem mark_bit_decodes_preference:
  assumes "score_step perm self ids idx st = Inr st'"
  shows "\<exists>curr pref green red gd rd g'.
           item_at ids (int idx) = Inr curr \<and>
           preferance_at_idx self ids idx = Inr pref \<and> is_bit pref \<and>
           get_greenlist_ids perm self (gen st) (slice_to ids (int idx))
             = Inr ((green, red, gd, rd), g') \<and>
           mark st' = mark st @
             [if contains (if pref = CHR ''1'' then green else red) curr = (pref = CHR ''1'')
              then CHR ''1'' else CHR ''0''] \<and>
           green_token_count st' = green_token_count st +
             (if contains (if pref = CHR ''1'' then green else red) curr then 1 else 0)"
proof -
  from assms obtain curr pref green red gd rd g' where
    curr: "item_at ids (int idx) = Inr curr"
    and pref: "preferance_at_idx self ids idx = Inr pref"
    and lists: "get_greenlist_ids perm self (gen st) (slice_to ids (int idx))
                  = Inr ((green, red, gd, rd), g')"
    and rest: "(let greenlist_ids = (if pref = CHR ''1'' then green else red);
         d_masks = (if pref = CHR ''1'' then gd else rd)
     in
     if contains greenlist_ids curr then
       and_then
         (if gen_mode (args self) = ''depth_d''
          then depth_hit_loop (depth_hit st) d_masks curr 0
          else Inr (depth_hit st))
         (\<lambda>hits. Inr \<lparr>green_token_count = green_token_count st + 1,
                       green_token_mask = green_token_mask st @ [True],
                       depth_hit = hits,
                       mark = mark st @ (if pref = CHR ''1'' then ''1'' else ''0''),
                       gen = g'\<rparr>)
     else
       Inr \<lparr>green_token_count = green_token_count st,
            green_token_mask = green_token_mask st @ [False],
            depth_hit = depth_hit st,
            mark = mark st @ (if pref = CHR ''0'' then ''1'' else ''0''),
            gen = g'\<rparr>) = Inr st'"
    unfolding score_step_def by (auto simp: and_then_Inr_iff)
  have bit: "is_bit pref"
    using get_greenlist_ids_userid[OF lists] preferance_at_idx_mem[OF pref]
    by (auto simp: list_all_iff)
  have out: "mark st' = mark st @
             [if contains (if pref = CHR ''1'' then green else red) curr = (pref = CHR ''1'')
              then CHR ''1'' else CHR ''0''] \<and>
           green_token_count st' = green_token_count st +
             (if contains (if pref = CHR ''1'' then green else red) curr then 1 else 0)"
  proof (cases "contains (if pref = CHR ''1'' then green else red) curr")
    case True
    with rest obtain hits where "st' = \<lparr>green_token_count = green_token_count st + 1,
                       green_token_mask = green_token_mask st @ [True],
                       depth_hit = hits,
                       mark = mark st @ (if pref = CHR ''1'' then ''1'' else ''0''),
                       gen = g'\<rparr>"
      by (auto simp: Let_def and_then_Inr_iff)
    then show ?thesis using True by simp
  next
    case False
    with rest have "st' = \<lparr>green_token_count = green_token_count st,
            green_token_mask = green_token_mask st @ [False],
            depth_hit = depth_hit st,
            mark = mark st @ (if pref = CHR ''0'' then ''1'' else ''0''),
            gen = g'\<rparr>"
      by (simp add: Let_def)
    then show ?thesis using False bit by (auto simp: is_bit_def)
  qed
  show ?thesis
    using curr pref bit lists out by blast
qed

theorem mark_bit_counterexample:
  "score_step rotation_perm example_base [3, 1] 1 scan_start
     = Inr scan_after_hit \<and>
   preferance_at_idx example_base [3, 1] 1 = Inr CHR ''0'' \<and>
   get_greenlist_ids rotation_perm example_base (gen scan_start) (slice_to [3, 1] 1)
     = Inr (([3, 2], [1, 0], [], []), \<lparr>seed = 30971726, drawn = [2]\<rparr>) \<and>
   contains [1, 0] 1 \<and>
   \<not> ((last (mark scan_after_hit) = CHR ''1'') = contains [1, 0] 1)"
  by code_simp

theorem mark_bit_decodes_preference_witness:
  "score_step rotation_perm example_base [3, 1] 1 scan_start
     = Inr scan_after_hit \<and>
   (\<exists>curr pref green red gd rd g'.
           item_at [3, 1] (int 1) = Inr curr \<and>
           preferance_at_idx example_base [3, 1] 1 = Inr pref \<and> is_bit pref \<and>
           get_greenlist_ids rotation_perm example_base (gen scan_start) (slice_to [3, 1] (int 1))
             = Inr ((green, red, gd, rd), g') \<and>
           mark scan_after_hit = mark scan_start @
             [if contains (if pref = CHR ''1'' then green else red) curr = (pref = CHR ''1'')
              then CHR ''1'' else CHR ''0''] \<and>
           green_token_count scan_after_hit = green_token_count scan_start +
             (if contains (if pref = CHR ''1'' then green else red) curr then 1 else 0))"
proof -
  have run: "score_step rotation_perm example_base [3, 1] 1 scan_start
     = Inr scan_after_hit"
    by code_simp
  show ?thesis
    by (rule conjI[OF run mark_bit_decodes_preference[OF run]])
qed

section \<open>The depth chunks and the bias\<close>

text \<open>
  C6 at a failing input. One sequence, three depth chunks \<open>[0]\<close>, \<open>[1]\<close>, \<open>[2]\<close> and the
  base delta 2: \<open>delta\<close> is overwritten in every round of the loop, so the third chunk
  receives \<open>2 * 0.5 * 0.25 = 0.25\<close>, where \<open>delta * 0.5^2\<close> is 0.5.
\<close>

theorem depth_delta_compounds: "bias_depth_d_logits [[0, 0, 0, 0]] [[0, 1, 2]] [[0], [1], [2]] 2 = Inr [[2, 1, 0.25, 0]] \<and>
   (2::real) * 0.5 ^ 2 = 0.5 \<and> (0.25::real) \<noteq> 0.5"
  by code_simp

lemma slice_nonneg:
  assumes "0 \<le> a" "a \<le> b"
  shows "slice xs a b = take (nat b - nat a) (drop (nat a) xs)"
proof (cases "nat a < length xs")
  case True
  then show ?thesis
    using assms by (auto simp: slice_def norm_index_def min_def intro: take_all)
next
  case False
  then show ?thesis
    using assms by (simp add: slice_def norm_index_def min_def)
qed

lemma concat_even_chunks:
  "concat (map (\<lambda>i. take L (drop (i * L) xs)) [0..<m]) = take (m * L) xs"
proof (induction m)
  case 0
  then show ?case by simp
next
  case (Suc m)
  have "take (m * L) xs @ take L (drop (m * L) xs) = take (m * L + L) xs"
    by (simp add: take_add)
  then show ?case using Suc by (simp add: add.commute)
qed

lemma depth_chunks_concat:
  assumes "1 \<le> d" "0 \<le> len"
  shows "concat (depth_chunks ids len d) = ids"
proof -
  have "d = int (Suc (nat d - 1))"
    using assms(1) by simp
  then obtain m where d: "d = int (Suc m)" ..
  define L where "L = nat len"
  have len: "len = int L" using assms(2) by (simp add: L_def)
  have mid: "\<And>i. i < m \<Longrightarrow>
      (if int i = d - 1 then slice_from ids (int i * len) else slice ids (int i * len) ((int i + 1) * len))
        = take L (drop (i * L) ids)"
  proof -
    fix i assume "i < m"
    then have ne: "int i \<noteq> d - 1" using d by simp
    have eq: "int i * len = int (i * L)" "(int i + 1) * len = int ((i + 1) * L)"
      by (simp_all add: len algebra_simps)
    have "slice ids (int (i * L)) (int ((i + 1) * L)) = take L (drop (i * L) ids)"
      by (subst slice_nonneg) (simp_all del: of_nat_mult of_nat_add)
    then show "(if int i = d - 1 then slice_from ids (int i * len) else slice ids (int i * len) ((int i + 1) * len))
        = take L (drop (i * L) ids)"
      using ne by (simp only: eq if_False)
  qed
  have lst: "slice_from ids (int m * len) = drop (m * L) ids"
  proof -
    have eq: "int m * len = int (m * L)"
      by (simp add: len)
    have "slice_from ids (int (m * L)) = drop (m * L) ids"
      by (simp add: slice_from_def norm_index_def min_def del: of_nat_mult)
    then show ?thesis by (simp only: eq)
  qed
  define f where "f = (\<lambda>i. if int i = d - 1 then slice_from ids (int i * len)
                          else slice ids (int i * len) ((int i + 1) * len))"
  have "depth_chunks ids len d = map f [0..<nat (int (Suc m))]"
    unfolding depth_chunks_def f_def d ..
  also have "\<dots> = map f [0..<m] @ [f m]"
    by (simp only: nat_int) simp
  also have "map f [0..<m] = map (\<lambda>i. take L (drop (i * L) ids)) [0..<m]"
    by (rule map_cong) (simp_all add: f_def mid)
  also have "f m = drop (m * L) ids"
    using lst by (simp add: f_def d)
  finally show ?thesis
    by (simp add: concat_even_chunks)
qed

lemma mset_index_select:
  assumes "mset p = mset [0..<length xs]"
  shows "mset (map (nth xs) p) = mset xs"
proof -
  have "mset (map (nth xs) p) = image_mset (nth xs) (mset p)" by simp
  also have "\<dots> = mset (map (nth xs) [0..<length xs])" by (simp only: assms mset_map)
  finally show ?thesis by (simp add: map_nth)
qed


lemma seed_depth_rng_Inr:
  "seed_depth_rng self g = Inr g' \<Longrightarrow>
     \<exists>u. int_base2 (userid self) = Inr u \<and> g' = \<lparr>seed = seed_of (hash_key self * u), drawn = []\<rparr>"
  unfolding seed_depth_rng_def by (auto simp: and_then_Inr_iff dest: manual_seed_Inr)

lemma get_greenlist_ids_depth:
  assumes "get_greenlist_ids perm self g ids = Inr ((green, red, gd, rd), g')"
    and "gen_mode (args self) = ''depth_d''"
  shows "\<exists>d u dg dr. depth (args self) = Some d \<and> d \<noteq> 0 \<and> int_base2 (userid self) = Inr u \<and>
           index_select green (perm (seed_of (hash_key self * u)) [] (length green)) = Inr dg \<and>
           depth_red_ids_of green red (perm (seed_of (hash_key self * u)) [] (length green)) = Inr dr \<and>
           gd = depth_chunks dg (greenlist_size_of self div d) d \<and>
           rd = depth_chunks dr (greenlist_size_of self div d) d"
  using assms unfolding get_greenlist_ids_def
  by (auto simp: and_then_Inr_iff randperm_def Let_def split: option.splits if_splits
      dest!: seed_depth_rng_Inr)

lemma depth_red_ids_of_mset:
  assumes "mset p = mset [0..<length green]" and "length red \<le> length green + 1"
    and "depth_red_ids_of green red p = Inr dr"
  shows "mset dr = mset red"
proof (cases "length red = length green")
  case True
  then have "dr = map (nth red) p"
    using assms(3) by (auto simp: depth_red_ids_of_def index_select_def split: if_splits)
  then show ?thesis
    using mset_index_select[of p red] assms(1) True by simp
next
  case False
  then obtain tail where dr: "dr = map (nth (butlast red)) p @ [tail]"
    and tail: "item_at red (- 1) = Inr tail"
    using assms(3)
    by (auto simp: depth_red_ids_of_def index_select_def and_then_Inr_iff split: if_splits)
  have ne: "red \<noteq> []"
    using tail by (auto simp: item_at_def)
  then have tl: "tail = last red"
    using tail item_at_last[OF ne] by simp
  have "set p = {0..<length green}"
    using assms(1) by (metis mset_eq_setD set_upt)
  moreover have "list_all (\<lambda>i. i < length (butlast red)) p"
    using assms(3) False
    by (auto simp: depth_red_ids_of_def index_select_def and_then_def split: if_splits)
  ultimately have "length green = 0 \<or> length green \<le> length red - 1"
    by (cases "length green") (auto simp: list_all_iff)
  then have len: "length (butlast red) = length green"
    using assms(2) False ne by (cases red) auto
  have "mset (map (nth (butlast red)) p) = mset (butlast red)"
    using mset_index_select[of p "butlast red"] assms(1) len by simp
  then have "mset dr = mset (butlast red @ [last red])"
    by (simp add: dr tl)
  then show ?thesis
    using ne by simp
qed

lemma depth_chunks_cover:
  assumes perm: "permutes_range perm" and g0: "0 \<le> gamma self"
    and mode: "gen_mode (args self) = ''depth_d''"
    and run: "get_greenlist_ids perm self g ids = Inr ((green, red, gd, rd), g')"
  shows "\<exists>d. depth (args self) = Some d \<and> d \<noteq> 0 \<and>
           (1 \<le> d \<longrightarrow> mset (concat gd) = mset green \<and>
              (length red \<le> length green + 1 \<longrightarrow> mset (concat rd) = mset red))"
proof -
  define k where "k = greenlist_size_of self"
  obtain d u dg dr where d: "depth (args self) = Some d" "d \<noteq> 0"
    and dg: "index_select green (perm (seed_of (hash_key self * u)) [] (length green)) = Inr dg"
    and dr: "depth_red_ids_of green red (perm (seed_of (hash_key self * u)) [] (length green)) = Inr dr"
    and gd: "gd = depth_chunks dg (k div d) d" and rd: "rd = depth_chunks dr (k div d) d"
    using get_greenlist_ids_depth[OF run mode] unfolding k_def by blast
  define p where "p = perm (seed_of (hash_key self * u)) [] (length green)"
  have p: "mset p = mset [0..<length green]"
    using perm by (simp add: permutes_range_def p_def)
  have k0: "0 \<le> k"
    unfolding k_def by (rule greenlist_size_nonneg[OF g0])
  have "dg = map (nth green) p"
    using dg by (auto simp: index_select_def p_def split: if_splits)
  then have mg: "mset dg = mset green"
    using mset_index_select[OF p] by simp
  have cover: "1 \<le> d \<longrightarrow> mset (concat gd) = mset green \<and>
              (length red \<le> length green + 1 \<longrightarrow> mset (concat rd) = mset red)"
  proof (intro impI conjI)
    assume d1: "1 \<le> d"
    then have L: "0 \<le> k div d"
      using k0 by (simp add: pos_imp_zdiv_nonneg_iff)
    show "mset (concat gd) = mset green"
      by (simp only: gd depth_chunks_concat[OF d1 L] mg)
    assume "length red \<le> length green + 1"
    then have "mset dr = mset red"
      using depth_red_ids_of_mset[OF p _ dr[folded p_def]] by simp
    then show "mset (concat rd) = mset red"
      by (simp only: rd depth_chunks_concat[OF d1 L])
  qed
  show ?thesis
    using d cover by blast
qed

text \<open>
  C7 at two failing inputs. With four ids and gamma 0.25 the red list \<open>[2, 1, 0]\<close> is two
  longer than the green list: the red chunks are built from the red list without its last
  id, indexed by a permutation of the green length, plus that last id, so the red id 1 is in
  no chunk. With gamma 0.75 the green list is the longer one and the call raises
  \<open>IndexError\<close>, in every mode. The green chunks always cover the green list, and the
  red chunks cover the red list when it is at most one longer (\<open>depth_chunks_cover\<close>).
\<close>

theorem red_depth_chunks_omit_ids: "get_greenlist_ids rotation_perm example_quarter_base new_generator [3]
     = Inr (([3], [2, 1, 0], [[3]], [[2, 0]]), \<lparr>seed = 30971726, drawn = [1]\<rparr>) \<and>
   1 \<in> set [2, 1, 0::nat] \<and> 1 \<notin> set (concat [[2, 0::nat]]) \<and>
   get_greenlist_ids rotation_perm (example_base\<lparr>gamma := 0.75\<rparr>) new_generator [3] = Inl IndexError"
  by code_simp

lemma call_normal:
  assumes "preferance_at_call self input_ids = Inr pref"
    and "batch_loop perm self pref input_ids
           (case rng st of None \<Rightarrow> new_generator | Some g0 \<Rightarrow> g0) None = Inr (batched, dm, g')"
    and "gen_mode (args self) \<noteq> ''depth_d''" and "gen_mode (args self) \<noteq> ''beam_delta''"
    and "gen_mode (args self) \<noteq> ''dynamic_delta''"
    and "calc_greenlist_mask scores batched = Inr msk"
  shows "call perm self st input_ids scores =
           Inr (bias_greenlist_logits (idx_t st + 1) scores msk (delta self) (decrease_delta self),
                \<lparr>rng = Some g', idx_t = idx_t st + 1\<rparr>)"
  unfolding call_def Let_def by (simp add: assms)

lemma set_at_Inr:
  "set_at row ids = Inr row' \<Longrightarrow> row' = map (\<lambda>k. k \<in> set ids \<or> row ! k) [0..<length row]"
  by (auto simp: set_at_def split: if_splits)

lemma mask_loop_spec:
  "mask_loop msk idss b = Inr msk' \<Longrightarrow>
     length msk' = length msk \<and>
     (\<forall>j<length msk. length (msk' ! j) = length (msk ! j) \<and>
        (\<forall>k<length (msk ! j). msk' ! j ! k =
           (msk ! j ! k \<or> (b \<le> j \<and> j < b + length idss \<and> k \<in> set (idss ! (j - b))))))"
proof (induction idss arbitrary: msk b)
  case Nil
  then show ?case by auto
next
  case (Cons ids rest)
  from Cons.prems obtain row where b: "b < length msk"
    and row: "set_at (msk ! b) ids = Inr row"
    and rec: "mask_loop (msk[b := row]) rest (Suc b) = Inr msk'"
    by (auto simp: and_then_Inr_iff split: if_splits)
  note ih = Cons.IH[OF rec]
  have row': "row = map (\<lambda>k. k \<in> set ids \<or> msk ! b ! k) [0..<length (msk ! b)]"
    by (rule set_at_Inr[OF row])
  have len: "length msk' = length msk"
    using ih by simp
  have rows: "\<forall>j<length msk. length (msk' ! j) = length (msk ! j) \<and>
        (\<forall>k<length (msk ! j). msk' ! j ! k =
           (msk ! j ! k \<or> (b \<le> j \<and> j < b + length (ids # rest) \<and> k \<in> set ((ids # rest) ! (j - b)))))"
  proof (intro allI impI)
    fix j assume j: "j < length msk"
    from ih j have a: "length (msk' ! j) = length (msk[b := row] ! j)"
      and c: "\<forall>k<length (msk[b := row] ! j). msk' ! j ! k =
           (msk[b := row] ! j ! k \<or> (Suc b \<le> j \<and> j < Suc b + length rest \<and> k \<in> set (rest ! (j - Suc b))))"
      by simp_all
    show "length (msk' ! j) = length (msk ! j) \<and>
        (\<forall>k<length (msk ! j). msk' ! j ! k =
           (msk ! j ! k \<or> (b \<le> j \<and> j < b + length (ids # rest) \<and> k \<in> set ((ids # rest) ! (j - b)))))"
    proof (cases "j = b")
      case True
      then show ?thesis
        using a c j b by (auto simp: row')
    next
      case False
      then have "(ids # rest) ! (j - b) = rest ! (j - Suc b) \<or> j < b"
      proof (cases "j < b")
        case True
        then show ?thesis by simp
      next
        case ge: False
        then have "j - b = Suc (j - Suc b)" using \<open>j \<noteq> b\<close> by simp
        then show ?thesis by simp
      qed
      then show ?thesis
        using a c j False by (auto simp: nth_list_update)
    qed
  qed
  show ?case using len rows by blast
qed

lemma calc_greenlist_mask_spec:
  assumes "calc_greenlist_mask scores idss = Inr msk"
  shows "length msk = length scores \<and>
         (\<forall>j<length scores. length (msk ! j) = length (scores ! j) \<and>
            (\<forall>k<length (scores ! j). msk ! j ! k = (j < length idss \<and> k \<in> set (idss ! j))))"
  using mask_loop_spec[OF assms[unfolded calc_greenlist_mask_def]]
  by simp

lemma bias_greenlist_logits_nth:
  assumes "length msk = length scores" "j < length scores" "length (msk ! j) = length (scores ! j)"
    "k < length (scores ! j)"
  shows "bias_greenlist_logits t scores msk b dec ! j ! k =
           scores ! j ! k + (if msk ! j ! k
              then (if dec then 4.84 * exp 1 powr (- 1 * 0.001 * real t) else b) else 0)"
  using assms by (simp add: bias_greenlist_logits_def Let_def)

lemma bias_greenlist_logits_length:
  assumes "length msk = length scores"
  shows "length (bias_greenlist_logits t scores msk b dec) = length scores"
  using assms by (simp add: bias_greenlist_logits_def Let_def)

lemma batch_loop_spec:
  "batch_loop perm self pref rows g dm = Inr (batched, dm', g') \<Longrightarrow>
     length batched = length rows \<and>
     (\<forall>j<length rows. \<exists>green red gd rd ga gb.
        get_greenlist_ids perm self ga (rows ! j) = Inr ((green, red, gd, rd), gb) \<and>
        batched ! j = (if pref = CHR ''1'' then green else red))"
proof (induction rows arbitrary: g dm batched)
  case Nil
  then show ?case by simp
next
  case (Cons row rows)
  from Cons.prems obtain green red gd rd g1 rest where
    one: "get_greenlist_ids perm self g row = Inr ((green, red, gd, rd), g1)"
    and rec: "batch_loop perm self pref rows g1
                (Some (if pref = CHR ''1'' then gd else rd)) = Inr (rest, dm', g')"
    and b: "batched = (if pref = CHR ''1'' then green else red) # rest"
    by (auto simp: and_then_Inr_iff Let_def)
  note ih = Cons.IH[OF rec]
  show ?case
  proof (intro conjI allI impI)
    show "length batched = length (row # rows)" using ih b by simp
  next
    fix j assume j: "j < length (row # rows)"
    show "\<exists>green red gd rd ga gb.
        get_greenlist_ids perm self ga ((row # rows) ! j) = Inr ((green, red, gd, rd), gb) \<and>
        batched ! j = (if pref = CHR ''1'' then green else red)"
    proof (cases j)
      case 0
      then have "(row # rows) ! j = row"
        and "batched ! j = (if pref = CHR ''1'' then green else red)"
        using b by simp_all
      then show ?thesis using one by metis
    next
      case (Suc i)
      then have "i < length rows" using j by simp
      then show ?thesis using ih b Suc by simp
    qed
  qed
qed

lemma call_normal_locality:
  assumes run: "call perm self st input_ids scores = Inr (scores', st')"
    and modes: "gen_mode (args self) \<noteq> ''depth_d''" "gen_mode (args self) \<noteq> ''beam_delta''"
      "gen_mode (args self) \<noteq> ''dynamic_delta''"
  shows "\<exists>pref batched. preferance_at_call self input_ids = Inr pref \<and>
           length batched = length input_ids \<and>
           (\<forall>j<length input_ids. \<exists>green red gd rd ga gb.
              get_greenlist_ids perm self ga (input_ids ! j) = Inr ((green, red, gd, rd), gb) \<and>
              batched ! j = (if pref = CHR ''1'' then green else red)) \<and>
           length scores' = length scores \<and>
           (\<forall>j<length scores. \<forall>k<length (scores ! j).
              scores' ! j ! k = scores ! j ! k +
                (if j < length batched \<and> k \<in> set (batched ! j)
                 then (if decrease_delta self
                       then 4.84 * exp 1 powr (- 1 * 0.001 * real (idx_t st + 1))
                       else delta self)
                 else 0))"
proof -
  from run modes obtain pref batched dm g' msk where
    pref: "preferance_at_call self input_ids = Inr pref"
    and loop: "batch_loop perm self pref input_ids
           (case rng st of None \<Rightarrow> new_generator | Some g0 \<Rightarrow> g0) None = Inr (batched, dm, g')"
    and msk: "calc_greenlist_mask scores batched = Inr msk"
    and out: "scores' = bias_greenlist_logits (idx_t st + 1) scores msk (delta self) (decrease_delta self)"
    unfolding call_def Let_def by (auto simp: and_then_Inr_iff)
  note b = batch_loop_spec[OF loop]
  note m = calc_greenlist_mask_spec[OF msk]
  have len: "length scores' = length scores"
    using m by (simp add: out bias_greenlist_logits_length)
  have cells: "\<forall>j<length scores. \<forall>k<length (scores ! j).
              scores' ! j ! k = scores ! j ! k +
                (if j < length batched \<and> k \<in> set (batched ! j)
                 then (if decrease_delta self
                       then 4.84 * exp 1 powr (- 1 * 0.001 * real (idx_t st + 1))
                       else delta self)
                 else 0)"
  proof (intro allI impI)
    fix j k assume j: "j < length scores" and k: "k < length (scores ! j)"
    have "scores' ! j ! k = scores ! j ! k + (if msk ! j ! k
              then (if decrease_delta self then 4.84 * exp 1 powr (- 1 * 0.001 * real (idx_t st + 1))
                    else delta self) else 0)"
      unfolding out using m j k by (intro bias_greenlist_logits_nth) simp_all
    moreover have "msk ! j ! k = (j < length batched \<and> k \<in> set (batched ! j))"
      using m j k by simp
    ultimately show "scores' ! j ! k = scores ! j ! k +
                (if j < length batched \<and> k \<in> set (batched ! j)
                 then (if decrease_delta self
                       then 4.84 * exp 1 powr (- 1 * 0.001 * real (idx_t st + 1))
                       else delta self)
                 else 0)"
      by simp
  qed
  show ?thesis
    using pref b len cells by blast
qed

text \<open>
  C5 at a failing input. A batch of the two histories \<open>[1]\<close> and \<open>[0]\<close>, user id 10, mode
  previous1. The preference bit is read off the last row, here 1, and used for every row:
  the first row is biased on its green list \<open>[2, 1]\<close>. The same history submitted alone
  has the preference bit 0 and is biased on its red list \<open>[0, 3]\<close>. So the markable set
  of a row depends on another member of the batch. What holds in the plain mode is
  \<open>call_normal_locality\<close>: every row is shifted by the bias on the ids of one of its own
  two lists and nowhere else, the choice between the two being that one shared bit.
\<close>

theorem call_shares_preference_across_batch: "call rotation_perm example_base \<lparr>rng = None, idx_t = 0\<rparr> [[1], [0]]
      [[0, 0, 0, 0], [0, 0, 0, 0]]
     = Inr ([[0, 2, 2, 0], [0, 0, 2, 2]], \<lparr>rng = Some \<lparr>seed = 30971726, drawn = [2]\<rparr>, idx_t = 1\<rparr>) \<and>
   call rotation_perm example_base \<lparr>rng = None, idx_t = 0\<rparr> [[1]] [[0, 0, 0, 0]]
     = Inr ([[2, 0, 0, 2]], \<lparr>rng = Some \<lparr>seed = 30971726, drawn = [2]\<rparr>, idx_t = 1\<rparr>)"
proof -
  have modes: "gen_mode (args example_base) \<noteq> ''depth_d''"
    "gen_mode (args example_base) \<noteq> ''beam_delta''"
    "gen_mode (args example_base) \<noteq> ''dynamic_delta''"
    by (simp_all add: example_base_def)
  have cfg: "delta example_base = 2" "decrease_delta example_base = False"
    by (simp_all add: example_base_def)
  have p2: "preferance_at_call example_base [[1], [0]] = Inr CHR ''1''"
    by code_simp
  have b2: "batch_loop rotation_perm example_base CHR ''1'' [[1], [0]]
      (case rng \<lparr>rng = None, idx_t = 0\<rparr> of None \<Rightarrow> new_generator | Some g0 \<Rightarrow> g0) None
      = Inr ([[2, 1], [3, 2]], Some [], \<lparr>seed = 30971726, drawn = [2]\<rparr>)"
    by code_simp
  have m2: "calc_greenlist_mask [[0, 0, 0, 0], [0, 0, 0, 0]] [[2, 1], [3, 2]]
      = Inr [[False, True, True, False], [False, False, True, True]]"
    by code_simp
  have p1: "preferance_at_call example_base [[1]] = Inr CHR ''0''"
    by code_simp
  have b1: "batch_loop rotation_perm example_base CHR ''0'' [[1]]
      (case rng \<lparr>rng = None, idx_t = 0\<rparr> of None \<Rightarrow> new_generator | Some g0 \<Rightarrow> g0) None
      = Inr ([[0, 3]], Some [], \<lparr>seed = 30971726, drawn = [2]\<rparr>)"
    by code_simp
  have m1: "calc_greenlist_mask [[0, 0, 0, 0]] [[0, 3]] = Inr [[True, False, False, True]]"
    by code_simp
  show ?thesis
    unfolding call_normal[OF p2 b2 modes m2] call_normal[OF p1 b1 modes m1]
    by (simp add: bias_greenlist_logits_def cfg)
qed

section \<open>Generation against detection, and the failures of detection\<close>

lemma constructed_prefix:
  assumes "constructed det"
  shows "(wm_mode det = ''previous1'' \<and> min_prefix_len det = 1) \<or>
         (wm_mode det = ''combination'' \<and> min_prefix_len det = 2)"
  using assms unfolding constructed_def init_min_prefix_len_def
  by (auto split: if_splits)

lemma item_at_append_last: "item_at (xs @ [x]) (- 1) = Inr x"
  by (simp add: item_at_def nat_add_distrib)

lemma item_at_back:
  assumes "0 < k" "k \<le> length xs"
  shows "item_at xs (- int k) = Inr (xs ! (length xs - k))"
    and "item_at (xs @ ys) (int (length xs) - int k) = Inr (xs ! (length xs - k))"
proof -
  have "nat (int (length xs) - int k) = length xs - k"
    using assms by simp
  then show "item_at xs (- int k) = Inr (xs ! (length xs - k))"
    using assms by (simp add: item_at_def)
  have "nat (int (length xs) - int k) = length xs - k" "length xs - k < length xs"
    using assms by simp_all
  then show "item_at (xs @ ys) (int (length xs) - int k) = Inr (xs ! (length xs - k))"
    using assms by (simp add: item_at_def nth_append)
qed

lemma generation_detection_same_bit:
  assumes "(if wm_mode self = ''previous1'' then 1 else 2) \<le> length row"
  shows "preferance_at_call self (rows @ [row]) = preferance_at_idx self (row @ rest) (length row)"
proof (cases "wm_mode self = ''previous1''")
  case True
  then have "0 < (1::nat)" "1 \<le> length row" using assms by simp_all
  note one = item_at_back[OF this]
  show ?thesis
    using True one(1) one(2)[of rest]
    by (simp add: preferance_at_call_def preferance_at_idx_def item_at_append_last)
next
  case False
  then have "0 < (1::nat)" "1 \<le> length row" "0 < (2::nat)" "2 \<le> length row"
    using assms by simp_all
  note one = item_at_back[OF this(1,2)] and two = item_at_back[OF this(3,4)]
  show ?thesis
    using False one(1) one(2)[of rest] two(1) two(2)[of rest]
    by (simp add: preferance_at_call_def preferance_at_idx_def item_at_append_last)
qed

lemma int64_mul_exact:
  "- (2 ^ 63) \<le> a * b \<Longrightarrow> a * b < 2 ^ 63 \<Longrightarrow> int64_mul a b = a * b"
  by (simp add: int64_mul_def)

lemma preferance_at_idx_spec:
  assumes "userid self \<noteq> []" and "idx < length ids"
    and "(if wm_mode self = ''previous1'' then 1 else 2) \<le> idx"
    and "- (2 ^ 63) \<le> ids ! (idx - 1) * ids ! (idx - 2)"
    and "ids ! (idx - 1) * ids ! (idx - 2) < 2 ^ 63"
  shows "preferance_at_idx self ids idx =
           Inr (step_preference (userid self) (wm_mode self) (ids ! (idx - 1)) (ids ! (idx - 2)))"
proof -
  have n: "0 < int (length (userid self))" using assms(1) by simp
  have m: "\<And>t. 0 \<le> t mod int (length (userid self))"
    "\<And>t. t mod int (length (userid self)) < int (length (userid self))"
    using n by simp_all
  have pick: "\<And>t. item_at (userid self) (t mod int (length (userid self)))
                 = Inr (userid self ! nat (t mod int (length (userid self))))"
    using m by (simp add: item_at_def)
  have i1: "item_at ids (int idx - 1) = Inr (ids ! (idx - 1))"
    using assms(2,3) by (auto simp: item_at_def nat_diff_distrib split: if_splits)
  show ?thesis
  proof (cases "wm_mode self = ''previous1''")
    case True
    then show ?thesis
      using assms(1) i1 pick
      by (simp add: preferance_at_idx_def step_preference_def tensor_mod_def)
  next
    case False
    then have "2 \<le> idx" using assms(3) by simp
    then have i2: "item_at ids (int idx - 2) = Inr (ids ! (idx - 2))"
      using assms(2) by (auto simp: item_at_def nat_diff_distrib)
    show ?thesis
      using False assms(1) i1 i2 pick int64_mul_exact[OF assms(4,5)]
      by (simp add: preferance_at_idx_def step_preference_def tensor_mod_def)
  qed
qed

text \<open>
  C8 at a failing input. In the batch of the histories \<open>[1]\<close> and \<open>[0]\<close> with user id
  10 and mode previous1, the bit used at generation for the first row is that of the last
  row, 1. Detection of a text that starts with the first row's history \<open>[1]\<close> scores
  position 1 with the bit 0, which is what the preference rule gives for the previous
  token 1. The two bits agree for the last row of a batch
  (\<open>generation_detection_same_bit\<close>, \<open>preferance_at_idx_spec\<close>).
\<close>

theorem generation_bit_from_last_row: "preferance_at_call example_base [[1], [0]] = Inr CHR ''1'' \<and>
  preferance_at_idx example_base [1, 2] 1 = Inr CHR ''0'' \<and>
  step_preference (userid example_base) (wm_mode example_base) 1 0 = CHR ''0''"
  by code_simp

lemma detect_ambiguous:
  "(text = None) = (tokenized_text = None) \<Longrightarrow>
     detect perm sf loss self g text tokenized_text threshold = Inl (AssertionError Raw_or_tokenized)"
  by (auto simp: detect_def)

lemma detect_normalizer_raises:
  "normalizers self = normalizer # rest \<Longrightarrow> normalizer None = Inl e \<Longrightarrow>
     detect perm sf loss self g None (Some ids) threshold = Inl e"
  by (simp add: detect_def)

lemma detect_empty_ids:
  "normalizers self = [] \<Longrightarrow>
     detect perm sf loss self g None (Some []) threshold = Inl IndexError"
  by (simp add: detect_def input_tokens_def strip_bos_def item_at_def)

text \<open>
  C10 at a failing input. A detector with no normalizer and the empty sequence of token ids
  passed alone: exactly one of the two inputs is supplied, and \<open>detect\<close> raises
  \<open>IndexError\<close> at line 474, where it reads \<open>tokenized_text[0]\<close> to look for a leading
  bos, before \<open>_score_sequence\<close> is called; \<open>_score_sequence\<close> itself answers a
  sequence that short with its \<open>ValueError\<close>. With both inputs or neither \<open>detect\<close>
  raises the assertion of line 452, as claimed. With a normalizer configured and ids passed
  alone, the normalizer is called on \<open>None\<close> (\<open>detect_normalizer_raises\<close>).
\<close>

theorem detect_ids_alone_fails_input_handling:
  "detect rotation_perm (\<lambda>z. 0) (\<lambda>hits c T. Inr ()) example_detector new_generator
      None (Some []) None = Inl IndexError \<and>
   score_sequence rotation_perm (\<lambda>z. 0) (\<lambda>hits c T. Inr ()) example_detector new_generator
      [] = Inl ValueError \<and>
   detect rotation_perm (\<lambda>z. 0) (\<lambda>hits c T. Inr ()) example_detector new_generator
      None None None = Inl (AssertionError Raw_or_tokenized) \<and>
   detect rotation_perm (\<lambda>z. 0) (\<lambda>hits c T. Inr ()) example_detector new_generator
      (Some ''ab'') (Some [3, 1]) None = Inl (AssertionError Raw_or_tokenized)"
proof -
  have nrm: "normalizers example_detector = []"
    by (simp add: example_detector_def)
  have a: "detect rotation_perm (\<lambda>z. 0) (\<lambda>hits c T. Inr ()) example_detector new_generator
      None (Some []) None = Inl IndexError"
    by (rule detect_empty_ids[OF nrm])
  have b: "score_sequence rotation_perm (\<lambda>z. 0) (\<lambda>hits c T. Inr ()) example_detector new_generator
      [] = Inl ValueError"
    by (simp add: score_sequence_def)
  have c: "detect rotation_perm (\<lambda>z. 0) (\<lambda>hits c T. Inr ()) example_detector new_generator
      None None None = Inl (AssertionError Raw_or_tokenized)"
    by (simp add: detect_def)
  have d: "detect rotation_perm (\<lambda>z. 0) (\<lambda>hits c T. Inr ()) example_detector new_generator
      (Some ''ab'') (Some [3, 1]) None = Inl (AssertionError Raw_or_tokenized)"
    by (simp add: detect_def)
  show ?thesis using a b c d by blast
qed

lemma score_sequence_no_depth:
  "depth (args self) = None \<Longrightarrow> 1 \<le> int (length ids) - int (min_prefix_len self) \<Longrightarrow>
     score_sequence perm sf loss self g ids = Inl TypeError"
  by (simp add: score_sequence_def)

text \<open>
  C9 at a failing input. In mode normal with no depth supplied, the standard scoring path
  builds the depth histogram from \<open>args.depth\<close> before the scan and raises
  \<open>TypeError\<close>, so \<open>detect\<close> fails; \<open>_get_greenlist_ids\<close> reads the depth under
  its test of the mode and returns for the same configuration.
\<close>

theorem scoring_consults_depth_in_normal_mode: "score_sequence rotation_perm (\<lambda>z. 0) (\<lambda>hits c T. Inr ()) example_normal_detector
      new_generator [3, 1] = Inl TypeError \<and>
   detect rotation_perm (\<lambda>z. 0) (\<lambda>hits c T. Inr ()) example_normal_detector
      new_generator None (Some [3, 1]) None = Inl TypeError \<and>
   get_greenlist_ids rotation_perm example_normal_detector new_generator [3]
     = Inr (([3, 2], [1, 0], [], []), \<lparr>seed = 30971726, drawn = [2]\<rparr>)"
proof -
  have a: "score_sequence rotation_perm (\<lambda>z. 0) (\<lambda>hits c T. Inr ()) example_normal_detector
      new_generator [3, 1] = Inl TypeError"
    by (rule score_sequence_no_depth) (simp_all add: example_normal_detector_def example_detector_def)
  have toks: "input_tokens example_normal_detector None (Some [3, 1]) = Inr [3, 1]"
    by (simp add: input_tokens_def strip_bos_def item_at_def example_normal_detector_def example_detector_def)
  have b: "detect rotation_perm (\<lambda>z. 0) (\<lambda>hits c T. Inr ()) example_normal_detector
      new_generator None (Some [3, 1]) None = Inl TypeError"
  proof -
    have nrm: "normalizers example_normal_detector = []"
      by (simp add: example_normal_detector_def example_detector_def)
    show ?thesis
      unfolding detect_def by (simp add: nrm toks a)
  qed
  have c: "get_greenlist_ids rotation_perm example_normal_detector new_generator [3]
     = Inr (([3, 2], [1, 0], [], []), \<lparr>seed = 30971726, drawn = [2]\<rparr>)"
    by code_simp
  show ?thesis using a b c by blast
qed

end
